theory Spec2Isabelle
  imports Main "HOL-Library.AList"
begin

section \<open>Values exchanged with the broker\<close>

text \<open>
  The console (\<^verbatim>\<open>console/app.py\<close>) receives JSON values decoded by \<^verbatim>\<open>json.loads\<close>.
  A Python \<^verbatim>\<open>float\<close> is an IEEE double: a finite one is \<open>m * 2 ^ e\<close> for integers
  \<open>m\<close>, \<open>e\<close>, kept here as that pair, so that \<^verbatim>\<open>int(f)\<close> is exact integer arithmetic.
  A Python \<^verbatim>\<open>dict\<close> is an association list; \<^verbatim>\<open>d.get(k)\<close> is \<open>map_of d k\<close> and
  \<^verbatim>\<open>d[k] = v\<close> is \<open>AList.update k v d\<close> (an existing key keeps its place, a new
  one goes last, as in Python).
\<close>

datatype pyfloat = Finite int int | PosInf | NegInf | NaN

datatype json =
    JNull
  | JBool bool
  | JInt int
  | JFloat pyfloat
  | JStr string
  | JList "json list"
  | JObj "(string \<times> json) list"

type_synonym pydict = "(string \<times> json) list"

text \<open>The exceptions the modelled code can raise.\<close>

datatype exn =
    AttributeError
  | TypeError
  | ValueError
  | OverflowError
  | Full
  | Empty
  | KafkaError string

text \<open>Truthiness of a decoded JSON value (\<^verbatim>\<open>if v:\<close>).\<close>

fun truthy :: "json \<Rightarrow> bool" where
  "truthy JNull = False"
| "truthy (JBool b) = b"
| "truthy (JInt n) = (n \<noteq> 0)"
| "truthy (JFloat (Finite m e)) = (m \<noteq> 0)"
| "truthy (JFloat _) = True"
| "truthy (JStr s) = (s \<noteq> [])"
| "truthy (JList xs) = (xs \<noteq> [])"
| "truthy (JObj kvs) = (kvs \<noteq> [])"

text \<open>A list and a dict have no hash; every other decoded JSON value has one.\<close>

fun hashable :: "json \<Rightarrow> bool" where
  "hashable (JList xs) = False"
| "hashable (JObj kvs) = False"
| "hashable v = True"

text \<open>\<^verbatim>\<open>d.get(k, dflt)\<close>\<close>

definition get_default :: "pydict \<Rightarrow> string \<Rightarrow> json \<Rightarrow> json" where
  "get_default d k dflt = (case map_of d k of None \<Rightarrow> dflt | Some v \<Rightarrow> v)"

text \<open>
  A dict built by a comprehension \<^verbatim>\<open>{k: v for k, v in pairs}\<close>: later pairs overwrite
  earlier ones that have the same key.
\<close>

definition dict_of :: "('k \<times> 'v) list \<Rightarrow> ('k \<times> 'v) list" where
  "dict_of ps = foldl (\<lambda>d (k, v). AList.update k v d) [] ps"

text \<open>\<^verbatim>\<open>d.update(other)\<close>: every item of \<open>other\<close>, in its order, is stored in \<open>d\<close>.\<close>

definition dict_update :: "('k \<times> 'v) list \<Rightarrow> ('k \<times> 'v) list \<Rightarrow> ('k \<times> 'v) list" where
  "dict_update d other = foldl (\<lambda>d (k, v). AList.update k v d) d other"

section \<open>\<^verbatim>\<open>queue.Queue\<close>\<close>

text \<open>
  A \<^verbatim>\<open>queue.Queue(maxsize)\<close>: items leave at the head and enter at the tail;
  \<open>maxsize = 0\<close> is an unbounded queue.
\<close>

record pyqueue =
  maxsize :: nat
  items :: "json list"

definition new_queue :: "nat \<Rightarrow> pyqueue" where
  "new_queue n = \<lparr>maxsize = n, items = []\<rparr>"

definition full :: "pyqueue \<Rightarrow> bool" where
  "full q = (0 < maxsize q \<and> maxsize q \<le> length (items q))"

definition put_nowait :: "json \<Rightarrow> pyqueue \<Rightarrow> exn + pyqueue" where
  "put_nowait x q = (if full q then Inl Full else Inr (q\<lparr>items := items q @ [x]\<rparr>))"

definition get_nowait :: "pyqueue \<Rightarrow> exn + (json \<times> pyqueue)" where
  "get_nowait q =
     (case items q of
        [] \<Rightarrow> Inl Empty
      | x # xs \<Rightarrow> Inr (x, q\<lparr>items := xs\<rparr>))"

section \<open>Configuration\<close>

definition MAX_QUEUE_SIZE :: nat where
  "MAX_QUEUE_SIZE = 500"

definition RESPONSE_TIMEOUT_S :: nat where
  "RESPONSE_TIMEOUT_S = 30"

definition VALID_COMMANDS :: "string list" where
  "VALID_COMMANDS =
     [''task_create'', ''task_delete'', ''task_list'', ''task_status'',
      ''config_reload'', ''daemon_status'', ''daemon_stats'', ''daemon_shutdown'']"

text \<open>The keys of \<^verbatim>\<open>DATA_TOPICS\<close>, \<^verbatim>\<open>packet_queues\<close> and \<^verbatim>\<open>sse_subscribers\<close>.\<close>

datatype channel = Uas | Uac

section \<open>Shared state\<close>

text \<open>
  The module's globals. Every \<^verbatim>\<open>queue.Queue\<close> that is shared between a container and a
  request handler lives in \<open>heap\<close> under an address; \<open>next_addr\<close> is the next address
  \<^verbatim>\<open>queue.Queue(...)\<close> returns. The two ring buffers are never replaced and are kept
  by value.
\<close>

record state =
  packet_queues :: "channel \<Rightarrow> pyqueue"
  sse_subscribers :: "channel \<Rightarrow> nat list"
  response_sse_subscribers :: "nat list"
  pending_responses :: "string \<rightharpoonup> nat"
  heap :: "nat \<Rightarrow> pyqueue"
  next_addr :: nat

definition init_state :: state where
  "init_state =
     \<lparr>packet_queues = (\<lambda>_. new_queue MAX_QUEUE_SIZE),
      sse_subscribers = (\<lambda>_. []),
      response_sse_subscribers = [],
      pending_responses = Map.empty,
      heap = (\<lambda>_. new_queue 0),
      next_addr = 0\<rparr>"

text \<open>A consumed Kafka record: its decoded value and its headers (values already decoded
  by \<^verbatim>\<open>v.decode("utf-8", errors="replace")\<close>, which is total on bytes).\<close>

record message =
  msg_value :: json
  msg_headers :: "(string \<times> string) list"

text \<open>\<^verbatim>\<open>msg.value if isinstance(msg.value, dict) else {}\<close>\<close>

definition value_dict :: "json \<Rightarrow> pydict" where
  "value_dict v = (case v of JObj d \<Rightarrow> d | _ \<Rightarrow> [])"

section \<open>Packet ingest\<close>

subsection \<open>\<^verbatim>\<open>_parse_packet_headers\<close>\<close>

definition startswith_l :: "string \<Rightarrow> bool" where
  "startswith_l k = (take 2 k = ''l.'')"

text \<open>The locals \<^verbatim>\<open>headers\<close>, \<^verbatim>\<open>label_headers\<close> and \<^verbatim>\<open>envelope\<close> of lines 189-191.\<close>

definition header_dict :: "message \<Rightarrow> (string \<times> string) list" where
  "header_dict msg = dict_of (msg_headers msg)"

definition label_headers :: "message \<Rightarrow> (string \<times> string) list" where
  "label_headers msg =
     dict_of (map (\<lambda>(k, v). (drop 2 k, v)) (filter (\<lambda>(k, v). startswith_l k) (header_dict msg)))"

definition envelope :: "message \<Rightarrow> (string \<times> string) list" where
  "envelope msg = dict_of (filter (\<lambda>(k, v). \<not> startswith_l k) (header_dict msg))"

definition parse_packet_headers :: "message \<Rightarrow> (string \<times> (string \<times> string) list) list" where
  "parse_packet_headers msg =
     (if msg_headers msg = [] then []
      else [(''_envelope'', envelope msg), (''_header_labels'', label_headers msg)])"

definition str_dict :: "(string \<times> string) list \<Rightarrow> json" where
  "str_dict d = JObj (map (\<lambda>(k, v). (k, JStr v)) d)"

text \<open>
  Lines 196-203 of \<^verbatim>\<open>_handle_packet\<close>: the record is the decoded value when that is a
  dict and an empty dict otherwise; the header labels are merged into its \<^verbatim>\<open>labels\<close>
  (\<^verbatim>\<open>packet.setdefault("labels", {}).update(...)\<close> raises \<^verbatim>\<open>AttributeError\<close> when
  \<^verbatim>\<open>labels\<close> is there and is not a dict), then \<^verbatim>\<open>_envelope\<close> and \<^verbatim>\<open>_received_at\<close>
  are stored.
\<close>

definition merge_headers :: "int \<Rightarrow> message \<Rightarrow> exn + pydict" where
  "merge_headers now msg =
     (let packet = value_dict (msg_value msg);
          extra = parse_packet_headers msg;
          hl = (case map_of extra ''_header_labels'' of None \<Rightarrow> [] | Some l \<Rightarrow> l);
          merged =
            (if hl \<noteq> [] then
               (case map_of packet ''labels'' of
                  None \<Rightarrow>
                    Inr (AList.update ''labels''
                           (JObj (dict_update [] (map (\<lambda>(k, v). (k, JStr v)) hl))) packet)
                | Some (JObj ls) \<Rightarrow>
                    Inr (AList.update ''labels''
                           (JObj (dict_update ls (map (\<lambda>(k, v). (k, JStr v)) hl))) packet)
                | Some _ \<Rightarrow> Inl AttributeError)
             else Inr packet)
      in case merged of
           Inl e \<Rightarrow> Inl e
         | Inr p \<Rightarrow>
             Inr (AList.update ''_received_at'' (JInt now)
                   (AList.update ''_envelope''
                      (str_dict (case map_of extra ''_envelope'' of None \<Rightarrow> [] | Some e \<Rightarrow> e))
                      p)))"

subsection \<open>Timestamp normalisation\<close>

text \<open>The number of binary digits of a natural number.\<close>

fun bitlen :: "nat \<Rightarrow> nat" where
  "bitlen n = (if n = 0 then 0 else Suc (bitlen (n div 2)))"

declare bitlen.simps [simp del]

text \<open>
  \<^verbatim>\<open>float(str(n))\<close> for an \<^verbatim>\<open>int\<close> \<open>n\<close>: \<^verbatim>\<open>str\<close> gives the decimal numeral and
  \<^verbatim>\<open>float\<close> returns the double nearest to it (ties to even; infinite from
  \<open>2 ^ 1024 - 2 ^ 970\<close> on). Where Python limits the conversion between integers and
  strings to 4300 digits, \<^verbatim>\<open>json.loads\<close> already refuses a longer integer, so that none
  reaches \<^verbatim>\<open>str\<close> here.
\<close>

definition float_of_int :: "int \<Rightarrow> pyfloat" where
  "float_of_int n =
     (let a = nat \<bar>n\<bar>; k = bitlen a - 53 in
      if k = 0 then Finite n 0
      else
        let q = a div 2 ^ k; r = a mod 2 ^ k;
            q' = (if 2 ^ k < 2 * r \<or> (2 * r = 2 ^ k \<and> odd q) then q + 1 else q)
        in if 2 ^ 1024 \<le> q' * 2 ^ k then (if n < 0 then NegInf else PosInf)
           else Finite ((if n < 0 then - int q' else int q')) (int k))"

text \<open>\<^verbatim>\<open>int(f)\<close>: truncation towards zero; it raises on an infinity and on a NaN.\<close>

fun int_of_float :: "pyfloat \<Rightarrow> exn + int" where
  "int_of_float (Finite m e) =
     Inr (if 0 \<le> e then m * 2 ^ nat e
          else if 0 \<le> m then m div 2 ^ nat (- e)
          else - ((- m) div 2 ^ nat (- e)))"
| "int_of_float PosInf = Inl OverflowError"
| "int_of_float NegInf = Inl OverflowError"
| "int_of_float NaN = Inl ValueError"

text \<open>
  \<^verbatim>\<open>int(float(str(ts_raw)))\<close>. The parser \<^verbatim>\<open>float\<close> of a \<^verbatim>\<open>str\<close> is the parameter
  \<open>parse\<close> (\<open>None\<close> is its \<^verbatim>\<open>ValueError\<close>). \<^verbatim>\<open>str\<close> of a float is its \<^verbatim>\<open>repr\<close>,
  which \<^verbatim>\<open>float\<close> reads back as the same double; \<^verbatim>\<open>str\<close> of a bool, a list or a
  dict is no numeral and \<^verbatim>\<open>float\<close> raises \<^verbatim>\<open>ValueError\<close> on it.
\<close>

fun int_float_str :: "(string \<Rightarrow> pyfloat option) \<Rightarrow> json \<Rightarrow> exn + int" where
  "int_float_str parse (JInt n) = int_of_float (float_of_int n)"
| "int_float_str parse (JFloat f) = int_of_float f"
| "int_float_str parse (JStr s) =
     (case parse s of None \<Rightarrow> Inl ValueError | Some f \<Rightarrow> int_of_float f)"
| "int_float_str parse (JBool b) = Inl ValueError"
| "int_float_str parse JNull = Inl ValueError"
| "int_float_str parse (JList xs) = Inl ValueError"
| "int_float_str parse (JObj kvs) = Inl ValueError"

text \<open>
  Lines 208-219 of \<^verbatim>\<open>_handle_packet\<close>. \<^verbatim>\<open>packet.get("timestamp")\<close> is \<^verbatim>\<open>None\<close> for a
  missing key and for a JSON \<^verbatim>\<open>null\<close>. The \<^verbatim>\<open>except\<close> clause catches \<^verbatim>\<open>ValueError\<close>
  and \<^verbatim>\<open>TypeError\<close> only.
\<close>

definition normalise_timestamp :: "(string \<Rightarrow> pyfloat option) \<Rightarrow> int \<Rightarrow> json option \<Rightarrow> exn + int" where
  "normalise_timestamp parse received_at ts_raw =
     (case ts_raw of
        None \<Rightarrow> Inr received_at
      | Some JNull \<Rightarrow> Inr received_at
      | Some v \<Rightarrow>
          (case int_float_str parse v of
             Inr ts_int \<Rightarrow> Inr (if ts_int < 100000000000 then ts_int * 1000 else ts_int)
           | Inl ValueError \<Rightarrow> Inr received_at
           | Inl TypeError \<Rightarrow> Inr received_at
           | Inl e \<Rightarrow> Inl e))"

text \<open>Lines 196-219: the record that \<^verbatim>\<open>_handle_packet\<close> publishes.\<close>

definition build_packet :: "(string \<Rightarrow> pyfloat option) \<Rightarrow> int \<Rightarrow> message \<Rightarrow> exn + pydict" where
  "build_packet parse now msg =
     (case merge_headers now msg of
        Inl e \<Rightarrow> Inl e
      | Inr packet \<Rightarrow>
          (case normalise_timestamp parse now (map_of packet ''timestamp'') of
             Inl e \<Rightarrow> Inl e
           | Inr ts \<Rightarrow> Inr (AList.update ''timestamp'' (JInt ts) packet)))"

subsection \<open>Fan-out to the subscribers\<close>

text \<open>
  The subscriber list of a feed: \<open>Some ch\<close> is \<^verbatim>\<open>sse_subscribers[ch]\<close> and \<open>None\<close> is
  \<^verbatim>\<open>response_sse_subscribers\<close>.
\<close>

definition subscribers :: "channel option \<Rightarrow> state \<Rightarrow> nat list" where
  "subscribers feed s =
     (case feed of None \<Rightarrow> response_sse_subscribers s | Some ch \<Rightarrow> sse_subscribers s ch)"

definition set_subscribers :: "channel option \<Rightarrow> nat list \<Rightarrow> state \<Rightarrow> state" where
  "set_subscribers feed l s =
     (case feed of
        None \<Rightarrow> s\<lparr>response_sse_subscribers := l\<rparr>
      | Some ch \<Rightarrow> s\<lparr>sse_subscribers := (sse_subscribers s)(ch := l)\<rparr>)"

text \<open>
  The block under \<^verbatim>\<open>sse_lock\<close> at lines 222-230 (packets) and at lines 291-299
  (responses): \<^verbatim>\<open>for q in subs: try: q.put_nowait(item) except queue.Full: dead.append(q)\<close>,
  then \<^verbatim>\<open>for q in dead: subs.remove(q)\<close>. \<^verbatim>\<open>list.remove\<close> deletes the first occurrence.
\<close>

fun push_all :: "json \<Rightarrow> nat list \<Rightarrow> (nat \<Rightarrow> pyqueue) \<Rightarrow> nat list \<Rightarrow> (nat \<Rightarrow> pyqueue) \<times> nat list" where
  "push_all item [] h dead = (h, dead)"
| "push_all item (q # qs) h dead =
     (case put_nowait item (h q) of
        Inl _ \<Rightarrow> push_all item qs h (dead @ [q])
      | Inr q' \<Rightarrow> push_all item qs (h(q := q')) dead)"

definition sse_push :: "json \<Rightarrow> nat list \<Rightarrow> (nat \<Rightarrow> pyqueue) \<Rightarrow> nat list \<times> (nat \<Rightarrow> pyqueue)" where
  "sse_push item subs h =
     (case push_all item subs h [] of
        (h', dead) \<Rightarrow> (foldl (\<lambda>l q. remove1 q l) subs dead, h'))"

definition publish :: "channel option \<Rightarrow> json \<Rightarrow> state \<Rightarrow> state" where
  "publish feed item s =
     (case sse_push item (subscribers feed s) (heap s) of
        (subs', h') \<Rightarrow> set_subscribers feed subs' (s\<lparr>heap := h'\<rparr>))"

text \<open>Publishing a sequence of items one after the other.\<close>

fun publish_all :: "channel option \<Rightarrow> json list \<Rightarrow> state \<Rightarrow> state" where
  "publish_all feed [] s = s"
| "publish_all feed (x # xs) s = publish_all feed xs (publish feed x s)"

subsection \<open>The ring buffer\<close>

text \<open>Lines 233-242: when the buffer is full its oldest record leaves, then the new
  record is put; both \<^verbatim>\<open>queue.Empty\<close> and \<^verbatim>\<open>queue.Full\<close> are swallowed.\<close>

definition ring_insert :: "json \<Rightarrow> pyqueue \<Rightarrow> pyqueue" where
  "ring_insert packet pq =
     (let pq1 = (if full pq
                 then (case get_nowait pq of Inl _ \<Rightarrow> pq | Inr (_, q') \<Rightarrow> q')
                 else pq)
      in case put_nowait packet pq1 of Inl _ \<Rightarrow> pq1 | Inr q' \<Rightarrow> q')"

subsection \<open>\<^verbatim>\<open>_handle_packet\<close>\<close>

definition handle_packet ::
  "(string \<Rightarrow> pyfloat option) \<Rightarrow> int \<Rightarrow> channel \<Rightarrow> message \<Rightarrow> state \<Rightarrow> exn + state" where
  "handle_packet parse now ch msg s =
     (case build_packet parse now msg of
        Inl e \<Rightarrow> Inl e
      | Inr packet \<Rightarrow>
          (let s1 = publish (Some ch) (JObj packet) s
           in Inr (s1\<lparr>packet_queues :=
                        (packet_queues s1)(ch := ring_insert (JObj packet) (packet_queues s1 ch))\<rparr>)))"

text \<open>
  The inner loop of \<^verbatim>\<open>_consumer_loop\<close> over one polled batch of a data topic: a handler
  that raises is logged and the loop goes on with the next record. \<^verbatim>\<open>_handle_packet\<close>
  raises before it touches any shared state, so the state is then the one before the call.
  Each record comes with the clock reading of its receipt.
\<close>

fun consume_packets ::
  "(string \<Rightarrow> pyfloat option) \<Rightarrow> channel \<Rightarrow> (int \<times> message) list \<Rightarrow> state \<Rightarrow> state" where
  "consume_packets parse ch [] s = s"
| "consume_packets parse ch ((now, msg) # ms) s =
     consume_packets parse ch ms
       (case handle_packet parse now ch msg s of Inl _ \<Rightarrow> s | Inr s' \<Rightarrow> s')"

section \<open>Response correlation\<close>

text \<open>
  Lines 275-283 of \<^verbatim>\<open>_handle_response\<close>, up to the release of \<^verbatim>\<open>pending_lock\<close>.
  \<^verbatim>\<open>pending_responses.pop(rid, None)\<close> hashes \<^verbatim>\<open>rid\<close>: a list or a dict there raises
  \<^verbatim>\<open>TypeError\<close>, except that CPython returns the default from an empty dict before
  hashing. The keys of the map are strings, so no other JSON value is found in it.
\<close>

definition response_lookup :: "int \<Rightarrow> message \<Rightarrow> state \<Rightarrow> exn + (pydict \<times> nat option \<times> state)" where
  "response_lookup now msg s =
     (let resp0 = value_dict (msg_value msg);
          rid = get_default resp0 ''request_id'' (JStr []);
          resp = AList.update ''_received_at'' (JInt now) resp0
      in case rid of
           JStr r \<Rightarrow>
             Inr (resp, pending_responses s r,
                  s\<lparr>pending_responses := (pending_responses s)(r := None)\<rparr>)
         | JList _ \<Rightarrow>
             (if pending_responses s = Map.empty then Inr (resp, None, s) else Inl TypeError)
         | JObj _ \<Rightarrow>
             (if pending_responses s = Map.empty then Inr (resp, None, s) else Inl TypeError)
         | _ \<Rightarrow> Inr (resp, None, s))"

text \<open>
  Lines 284-288: the waiter found (a \<^verbatim>\<open>queue.Queue\<close> is always truthy) gets the
  response; \<^verbatim>\<open>queue.Full\<close> is swallowed.
\<close>

definition waiter_put :: "pydict \<Rightarrow> nat option \<Rightarrow> state \<Rightarrow> state" where
  "waiter_put resp waiter s =
     (case waiter of
        None \<Rightarrow> s
      | Some a \<Rightarrow>
          (case put_nowait (JObj resp) (heap s a) of
             Inl _ \<Rightarrow> s
           | Inr q' \<Rightarrow> s\<lparr>heap := (heap s)(a := q')\<rparr>))"

text \<open>Lines 284-299: after the waiter, every response subscriber gets the response.\<close>

definition response_deliver :: "pydict \<Rightarrow> nat option \<Rightarrow> state \<Rightarrow> state" where
  "response_deliver resp waiter s = publish None (JObj resp) (waiter_put resp waiter s)"

definition handle_response :: "int \<Rightarrow> message \<Rightarrow> state \<Rightarrow> exn + state" where
  "handle_response now msg s =
     (case response_lookup now msg s of
        Inl e \<Rightarrow> Inl e
      | Inr (resp, waiter, s1) \<Rightarrow> Inr (response_deliver resp waiter s1))"

section \<open>The command endpoint\<close>

text \<open>What \<^verbatim>\<open>api_command\<close> returns: the JSON body and the HTTP status.\<close>

datatype reply =
    InvalidTarget json
  | UnknownCommand json
  | DispatchError string
  | Sent string
  | Answered bool string pydict
  | Timeout string

fun status :: "reply \<Rightarrow> nat" where
  "status (InvalidTarget t) = 400"
| "status (UnknownCommand c) = 400"
| "status (DispatchError e) = 500"
| "status (Sent rid) = 200"
| "status (Answered ok rid resp) = 200"
| "status (Timeout rid) = 504"

text \<open>The \<^verbatim>\<open>request_id\<close> field of the returned body, when it has one.\<close>

fun reply_request_id :: "reply \<Rightarrow> string option" where
  "reply_request_id (Sent rid) = Some rid"
| "reply_request_id (Answered ok rid resp) = Some rid"
| "reply_request_id (Timeout rid) = Some rid"
| "reply_request_id _ = None"

text \<open>The local variables of a request past line 379.\<close>

record frame =
  fr_target :: string
  fr_wait :: bool
  fr_request_id :: string
  fr_queue :: nat

text \<open>
  Lines 361-379. \<open>body\<close> is what \<^verbatim>\<open>request.get_json\<close> returned and \<open>request_id\<close> is
  \<^verbatim>\<open>str(uuid.uuid4())\<close>. \<^verbatim>\<open>body.get\<close> raises \<^verbatim>\<open>AttributeError\<close> on a value that is
  no dict; \<^verbatim>\<open>command not in VALID_COMMANDS\<close> hashes the command and raises
  \<^verbatim>\<open>TypeError\<close> on a list or a dict.
\<close>

definition api_command_register :: "json \<Rightarrow> string \<Rightarrow> state \<Rightarrow> exn + ((reply + frame) \<times> state)" where
  "api_command_register body request_id s =
     (case body of
        JObj d \<Rightarrow>
          (let target = get_default d ''target'' (JStr ''uas'');
               command = get_default d ''command'' (JStr ''task_list'');
               wait = get_default d ''wait'' (JBool True)
           in case target of
                JStr t \<Rightarrow>
                  (if t \<notin> set [''uas'', ''uac'', ''*''] then Inr (Inl (InvalidTarget target), s)
                   else
                     (case command of
                        JList _ \<Rightarrow> Inl TypeError
                      | JObj _ \<Rightarrow> Inl TypeError
                      | JStr c \<Rightarrow>
                          (if c \<notin> set VALID_COMMANDS then Inr (Inl (UnknownCommand command), s)
                           else
                             let a = next_addr s;
                                 s1 = s\<lparr>heap := (heap s)(a := new_queue 1), next_addr := Suc a\<rparr>;
                                 w = (truthy wait \<and> t \<noteq> ''*'')
                             in Inr (Inr \<lparr>fr_target = t, fr_wait = truthy wait,
                                          fr_request_id = request_id, fr_queue = a\<rparr>,
                                     if w
                                     then s1\<lparr>pending_responses :=
                                               (pending_responses s1)(request_id \<mapsto> a)\<rparr>
                                     else s1))
                      | _ \<Rightarrow> Inr (Inl (UnknownCommand command), s)))
              | _ \<Rightarrow> Inr (Inl (InvalidTarget target), s))
      | _ \<Rightarrow> Inl AttributeError)"

text \<open>
  Lines 381-406. \<open>pub\<close> is what the producer did inside the \<^verbatim>\<open>try\<close>: \<open>None\<close> when
  every \<^verbatim>\<open>send\<close> and the \<^verbatim>\<open>flush\<close> returned, \<open>Some e\<close> when one of them raised the
  \<^verbatim>\<open>KafkaError\<close> whose \<^verbatim>\<open>str\<close> is \<open>e\<close>. The result \<open>None\<close> is a caller that goes
  on to line 410.
\<close>

definition api_command_publish :: "string option \<Rightarrow> frame \<Rightarrow> state \<Rightarrow> reply option \<times> state" where
  "api_command_publish pub f s =
     (case pub of
        Some e \<Rightarrow>
          (Some (DispatchError e),
           s\<lparr>pending_responses := (pending_responses s)(fr_request_id f := None)\<rparr>)
      | None \<Rightarrow>
          (if \<not> fr_wait f \<or> fr_target f = ''*'' then (Some (Sent (fr_request_id f)), s)
           else (None, s)))"

text \<open>Lines 361-406 in one piece.\<close>

definition api_command_send ::
  "json \<Rightarrow> string \<Rightarrow> string option \<Rightarrow> state \<Rightarrow> exn + (reply option \<times> frame option \<times> state)" where
  "api_command_send body request_id pub s =
     (case api_command_register body request_id s of
        Inl e \<Rightarrow> Inl e
      | Inr (Inl r, s1) \<Rightarrow> Inr (Some r, None, s1)
      | Inr (Inr f, s1) \<Rightarrow>
          (case api_command_publish pub f s1 of (r, s2) \<Rightarrow> Inr (r, Some f, s2)))"

text \<open>
  \<^verbatim>\<open>resp_queue.get(timeout=T)\<close> returns the head of the queue once there is one and
  raises \<^verbatim>\<open>queue.Empty\<close> when the queue is still empty after \<open>T\<close> seconds. The queue
  given here is the queue as it is when the call ends; how long that took is not part of
  the model.
\<close>

definition get_timeout :: "nat \<Rightarrow> pyqueue \<Rightarrow> exn + (json \<times> pyqueue)" where
  "get_timeout T q = get_nowait q"

text \<open>
  Lines 408-423, in the three pieces between which other threads can run: the blocking
  \<^verbatim>\<open>get\<close>, the reply built from a response (\<^verbatim>\<open>resp.get("error") is None\<close> holds for
  a missing key and for \<^verbatim>\<open>null\<close>; \<^verbatim>\<open>resp.get\<close> raises on a value that is no dict),
  and the \<^verbatim>\<open>except queue.Empty\<close> branch.
\<close>

definition await_get :: "frame \<Rightarrow> state \<Rightarrow> json option \<times> state" where
  "await_get f s =
     (case get_timeout RESPONSE_TIMEOUT_S (heap s (fr_queue f)) of
        Inl _ \<Rightarrow> (None, s)
      | Inr (resp, q') \<Rightarrow> (Some resp, s\<lparr>heap := (heap s)(fr_queue f := q')\<rparr>))"

definition await_reply :: "frame \<Rightarrow> json \<Rightarrow> exn + reply" where
  "await_reply f resp =
     (case resp of
        JObj d \<Rightarrow>
          Inr (Answered (map_of d ''error'' = None \<or> map_of d ''error'' = Some JNull)
                 (fr_request_id f) d)
      | _ \<Rightarrow> Inl AttributeError)"

definition await_expired :: "frame \<Rightarrow> state \<Rightarrow> reply \<times> state" where
  "await_expired f s =
     (Timeout (fr_request_id f),
      s\<lparr>pending_responses := (pending_responses s)(fr_request_id f := None)\<rparr>)"

definition api_command_await :: "frame \<Rightarrow> state \<Rightarrow> (exn + reply) \<times> state" where
  "api_command_await f s =
     (case await_get f s of
        (Some resp, s1) \<Rightarrow> (await_reply f resp, s1)
      | (None, s1) \<Rightarrow> (case await_expired f s1 of (r, s2) \<Rightarrow> (Inr r, s2)))"

section \<open>Push streams\<close>

text \<open>
  \<^verbatim>\<open>api_stream\<close> and \<^verbatim>\<open>api_stream_responses\<close>: the feed is \<open>Some ch\<close> for a packet
  channel and \<open>None\<close> for the responses. Opening a stream registers a new queue (of 200
  and of 100 places), the generator takes items from it, and closing the stream removes
  the queue when it is still registered.
\<close>

definition stream_open :: "channel option \<Rightarrow> state \<Rightarrow> nat \<times> state" where
  "stream_open feed s =
     (let a = next_addr s;
          s1 = s\<lparr>heap := (heap s)(a := new_queue (case feed of None \<Rightarrow> 100 | Some _ \<Rightarrow> 200)),
                 next_addr := Suc a\<rparr>
      in (a, set_subscribers feed (subscribers feed s1 @ [a]) s1))"

definition stream_get :: "nat \<Rightarrow> state \<Rightarrow> json option \<times> state" where
  "stream_get a s =
     (case get_timeout 15 (heap s a) of
        Inl _ \<Rightarrow> (None, s)
      | Inr (x, q') \<Rightarrow> (Some x, s\<lparr>heap := (heap s)(a := q')\<rparr>))"

definition stream_close :: "channel option \<Rightarrow> nat \<Rightarrow> state \<Rightarrow> state" where
  "stream_close feed a s =
     (if a \<in> set (subscribers feed s) then set_subscribers feed (remove1 a (subscribers feed s)) s
      else s)"

text \<open>The records that \<^verbatim>\<open>_handle_packet\<close> builds from a batch, in arrival order: a
  message on which it raises contributes none.\<close>

fun built_records :: "(string \<Rightarrow> pyfloat option) \<Rightarrow> (int \<times> message) list \<Rightarrow> json list" where
  "built_records parse [] = []"
| "built_records parse ((now, msg) # ms) =
     (case build_packet parse now msg of Inl _ \<Rightarrow> [] | Inr p \<Rightarrow> [JObj p])
     @ built_records parse ms"

section \<open>The threads together\<close>

text \<open>
  The consumer threads and the request handlers run concurrently; they meet in the shared
  state only. The system below interleaves them at every access to the shared state: a
  step is the code between two such accesses. Beside the shared state it holds the locals
  of the threads that are between two steps.
\<close>

text \<open>Where a request of \<^verbatim>\<open>api_command\<close> stands: before its publish (line 381), in
  its blocking \<^verbatim>\<open>get\<close> (line 410), or in the \<^verbatim>\<open>except queue.Empty\<close> branch before
  the pop (line 417).\<close>

datatype phase = Sending | Waiting | Expired

text \<open>Where the response consumer stands: between two records, after the pop of line 283
  with the response and the waiter it found, or after line 288 with the response that is
  still to be broadcast.\<close>

datatype consumer = Idle | Found pydict "nat option" | Handed pydict

text \<open>
  \<open>requests\<close> are the calls of \<^verbatim>\<open>api_command\<close> past line 379 that have not returned,
  \<open>streams\<close> are the generators of the open push streams, each with its feed and its queue.
  \<open>puts\<close> is a log, kept for the statements only: the address of every waiter queue on
  which line 286 has called \<^verbatim>\<open>put_nowait\<close>, oldest first.
\<close>

record system =
  shared :: state
  requests :: "(frame \<times> phase) list"
  streams :: "(channel option \<times> nat) list"
  response_consumer :: consumer
  puts :: "nat list"

definition init_system :: system where
  "init_system =
     \<lparr>shared = init_state, requests = [], streams = [], response_consumer = Idle, puts = []\<rparr>"

datatype action =
    Register json string
  | Publish nat "string option"
  | Await nat
  | Expire nat
  | Lookup int message
  | Deliver
  | Broadcast
  | Packet int channel message
  | Open "channel option"
  | Get nat
  | Close nat

text \<open>The list without its \<open>i\<close>-th element.\<close>

definition without :: "nat \<Rightarrow> 'a list \<Rightarrow> 'a list" where
  "without i xs = take i xs @ drop (Suc i) xs"

text \<open>
  One step; \<open>None\<close> when the step cannot be taken in the state. A handler that raises
  before it has touched the shared state leaves the state as it is.
\<close>

fun exec :: "(string \<Rightarrow> pyfloat option) \<Rightarrow> action \<Rightarrow> system \<Rightarrow> system option" where
  "exec parse (Register body request_id) sys =
     (case api_command_register body request_id (shared sys) of
        Inl e \<Rightarrow> Some sys
      | Inr (Inl r, s1) \<Rightarrow> Some (sys\<lparr>shared := s1\<rparr>)
      | Inr (Inr f, s1) \<Rightarrow>
          Some (sys\<lparr>shared := s1, requests := requests sys @ [(f, Sending)]\<rparr>))"
| "exec parse (Publish i pub) sys =
     (if i < length (requests sys) \<and> snd (requests sys ! i) = Sending then
        (case api_command_publish pub (fst (requests sys ! i)) (shared sys) of
           (Some r, s1) \<Rightarrow> Some (sys\<lparr>shared := s1, requests := without i (requests sys)\<rparr>)
         | (None, s1) \<Rightarrow>
             Some (sys\<lparr>shared := s1,
                       requests := (requests sys)[i := (fst (requests sys ! i), Waiting)]\<rparr>))
      else None)"
| "exec parse (Await i) sys =
     (if i < length (requests sys) \<and> snd (requests sys ! i) = Waiting then
        (case await_get (fst (requests sys ! i)) (shared sys) of
           (Some resp, s1) \<Rightarrow> Some (sys\<lparr>shared := s1, requests := without i (requests sys)\<rparr>)
         | (None, s1) \<Rightarrow>
             Some (sys\<lparr>shared := s1,
                       requests := (requests sys)[i := (fst (requests sys ! i), Expired)]\<rparr>))
      else None)"
| "exec parse (Expire i) sys =
     (if i < length (requests sys) \<and> snd (requests sys ! i) = Expired then
        (case await_expired (fst (requests sys ! i)) (shared sys) of
           (r, s1) \<Rightarrow> Some (sys\<lparr>shared := s1, requests := without i (requests sys)\<rparr>))
      else None)"
| "exec parse (Lookup now msg) sys =
     (case response_consumer sys of
        Idle \<Rightarrow>
          (case response_lookup now msg (shared sys) of
             Inl e \<Rightarrow> Some sys
           | Inr (resp, waiter, s1) \<Rightarrow>
               Some (sys\<lparr>shared := s1, response_consumer := Found resp waiter\<rparr>))
      | _ \<Rightarrow> None)"
| "exec parse Deliver sys =
     (case response_consumer sys of
        Found resp waiter \<Rightarrow>
          Some (sys\<lparr>shared := waiter_put resp waiter (shared sys),
                    response_consumer := Handed resp,
                    puts := puts sys @ (case waiter of None \<Rightarrow> [] | Some a \<Rightarrow> [a])\<rparr>)
      | _ \<Rightarrow> None)"
| "exec parse Broadcast sys =
     (case response_consumer sys of
        Handed resp \<Rightarrow>
          Some (sys\<lparr>shared := publish None (JObj resp) (shared sys), response_consumer := Idle\<rparr>)
      | _ \<Rightarrow> None)"
| "exec parse (Packet now ch msg) sys =
     (case handle_packet parse now ch msg (shared sys) of
        Inl e \<Rightarrow> Some sys
      | Inr s1 \<Rightarrow> Some (sys\<lparr>shared := s1\<rparr>))"
| "exec parse (Open feed) sys =
     (case stream_open feed (shared sys) of
        (a, s1) \<Rightarrow> Some (sys\<lparr>shared := s1, streams := streams sys @ [(feed, a)]\<rparr>))"
| "exec parse (Get i) sys =
     (if i < length (streams sys)
      then Some (sys\<lparr>shared := snd (stream_get (snd (streams sys ! i)) (shared sys))\<rparr>)
      else None)"
| "exec parse (Close i) sys =
     (if i < length (streams sys)
      then Some (sys\<lparr>shared := stream_close (fst (streams sys ! i)) (snd (streams sys ! i))
                                 (shared sys),
                     streams := without i (streams sys)\<rparr>)
      else None)"

text \<open>The states the system can be in.\<close>

inductive reachable :: "(string \<Rightarrow> pyfloat option) \<Rightarrow> system \<Rightarrow> bool"
  for parse :: "string \<Rightarrow> pyfloat option" where
  start: "reachable parse init_system"
| step: "reachable parse sys \<Longrightarrow> exec parse a sys = Some sys' \<Longrightarrow> reachable parse sys'"

text \<open>A run of steps from a state.\<close>

fun run :: "(string \<Rightarrow> pyfloat option) \<Rightarrow> action list \<Rightarrow> system \<Rightarrow> system option" where
  "run parse [] sys = Some sys"
| "run parse (a # as) sys =
     (case exec parse a sys of None \<Rightarrow> None | Some sys' \<Rightarrow> run parse as sys')"

text \<open>
  What holds in every state the system can be in. A waiter queue that can still be
  handed a response (it is registered in the pending map, or the consumer has just taken
  it from there) is \<open>quiet\<close>: it was created by this run, it is an empty queue of one place,
  no response was put on it, and it is no subscriber queue.
\<close>

definition quiet :: "state \<Rightarrow> nat list \<Rightarrow> nat \<Rightarrow> bool" where
  "quiet s pu a =
     (a < next_addr s \<and> heap s a = new_queue 1 \<and> a \<notin> set pu
      \<and> (\<forall>feed. a \<notin> set (subscribers feed s)))"

definition state_inv :: "state \<Rightarrow> nat option \<Rightarrow> nat list \<Rightarrow> bool" where
  "state_inv s found pu =
     ((\<forall>r a. pending_responses s r = Some a \<longrightarrow> quiet s pu a)
      \<and> (\<forall>a. found = Some a \<longrightarrow> quiet s pu a \<and> (\<forall>r. pending_responses s r \<noteq> Some a))
      \<and> (\<forall>r r' a. pending_responses s r = Some a \<and> pending_responses s r' = Some a \<longrightarrow> r = r')
      \<and> (\<forall>feed. distinct (subscribers feed s)
                 \<and> (\<forall>a \<in> set (subscribers feed s). a < next_addr s))
      \<and> distinct pu \<and> (\<forall>a \<in> set pu. a < next_addr s)
      \<and> (\<forall>ch. maxsize (packet_queues s ch) = MAX_QUEUE_SIZE
               \<and> length (items (packet_queues s ch)) \<le> MAX_QUEUE_SIZE))"

definition found_addr :: "consumer \<Rightarrow> nat option" where
  "found_addr c = (case c of Found resp waiter \<Rightarrow> waiter | _ \<Rightarrow> None)"

definition system_inv :: "system \<Rightarrow> bool" where
  "system_inv sys = state_inv (shared sys) (found_addr (response_consumer sys)) (puts sys)"

section \<open>Auxiliary notions for the statements\<close>

text \<open>The last \<open>n\<close> elements of a list, in their order.\<close>

definition last_n :: "nat \<Rightarrow> 'a list \<Rightarrow> 'a list" where
  "last_n n xs = drop (length xs - n) xs"

text \<open>A numbered test record, received at time \<open>i\<close>, without headers.\<close>

definition numbered :: "nat \<Rightarrow> int \<times> message" where
  "numbered i = (int i, \<lparr>msg_value = JObj [(''seq'', JInt (int i))], msg_headers = []\<rparr>)"

text \<open>A stand-in for the parser \<^verbatim>\<open>float\<close> of a string, defined on two numerals.\<close>

definition demo_parse :: "string \<Rightarrow> pyfloat option" where
  "demo_parse s =
     (if s = ''1.5e9'' then Some (Finite 1500000000 0)
      else if s = ''1e999'' then Some PosInf
      else None)"

text \<open>A state with two response subscribers and one subscriber of channel \<open>Uas\<close>:
  queue 0 has one place, which is taken, and the queues 1 and 2 are empty.\<close>

definition two_subscribers :: state where
  "two_subscribers =
     init_state\<lparr>sse_subscribers := (\<lambda>_. [])(Uas := [2]),
                response_sse_subscribers := [0, 1],
                heap := (\<lambda>_. new_queue 0)
                  (0 := \<lparr>maxsize = 1, items = [JNull]\<rparr>, 1 := new_queue 100, 2 := new_queue 200),
                next_addr := 3\<rparr>"

text \<open>A state with one caller waiting for the response to request \<open>r1\<close> on queue 0.\<close>

definition one_waiter :: state where
  "one_waiter =
     init_state\<lparr>pending_responses := [''r1'' \<mapsto> 0],
                heap := (\<lambda>_. new_queue 0)(0 := new_queue 1),
                next_addr := 1\<rparr>"



text \<open>A record whose decoded value is a JSON list.\<close>

definition list_message :: message where
  "list_message = \<lparr>msg_value = JList [JInt 1], msg_headers = []\<rparr>"

text \<open>Request bodies: a fire-and-forget request, a fire-and-forget request with a command
  that is not in the allow-list, one with a command that is a list, and a waited request
  to \<open>uas\<close>.\<close>

definition forget_body :: json where
  "forget_body = JObj [(''target'', JStr ''uac''), (''command'', JStr ''task_list''),
                       (''wait'', JBool False)]"

definition unknown_body :: json where
  "unknown_body = JObj [(''command'', JStr ''reboot''), (''wait'', JBool False)]"

definition unhashable_body :: json where
  "unhashable_body = JObj [(''command'', JList []), (''wait'', JBool False)]"

definition waited_body :: json where
  "waited_body = JObj [(''target'', JStr ''uas''), (''command'', JStr ''task_create'')]"

text \<open>A run in which a waited request is registered and published and its response is
  looked up, and the response of that run.\<close>

definition answer_message :: message where
  "answer_message =
     \<lparr>msg_value = JObj [(''request_id'', JStr ''id-9''), (''error'', JNull)], msg_headers = []\<rparr>"

definition answered_run :: "action list" where
  "answered_run = [Register waited_body ''id-9'', Publish 0 None, Lookup 5 answer_message]"

section \<open>The ring buffer\<close>

lemma ring_insert_wf:
  assumes "0 < maxsize q" "length (items q) \<le> maxsize q"
  shows "ring_insert x q =
           q\<lparr>items := drop (length (items q @ [x]) - maxsize q) (items q @ [x])\<rparr>"
  using assms
  by (cases "items q") (auto simp: ring_insert_def full_def put_nowait_def get_nowait_def)

lemma publish_fields [simp]:
  "packet_queues (publish feed item s) = packet_queues s"
  "pending_responses (publish feed item s) = pending_responses s"
  "next_addr (publish feed item s) = next_addr s"
  by (simp_all add: publish_def set_subscribers_def split: prod.splits option.splits)

lemma handle_packet_queue:
  "build_packet parse now msg = Inr p \<Longrightarrow>
     \<exists>s'. handle_packet parse now ch msg s = Inr s' \<and>
       packet_queues s' = (packet_queues s)(ch := ring_insert (JObj p) (packet_queues s ch))"
  by (simp add: handle_packet_def Let_def)

lemma handle_packet_Inl:
  "build_packet parse now msg = Inl e \<Longrightarrow> handle_packet parse now ch msg s = Inl e"
  by (simp add: handle_packet_def)

lemma last_n_append: "last_n C (last_n C b @ ys) = last_n C (b @ ys)"
proof (cases "length b \<le> C")
  case True
  then show ?thesis by (simp add: last_n_def)
next
  case False
  then have "drop (length ys) (drop (length b - C) (b @ ys)) = drop (length b + length ys - C) (b @ ys)"
    by (simp only: drop_drop) (simp add: add.commute)
  with False show ?thesis by (simp add: last_n_def)
qed

lemma ring_insert_last_n:
  assumes "0 < maxsize q" "length (items q) \<le> maxsize q"
  shows "ring_insert x q = q\<lparr>items := last_n (maxsize q) (items q @ [x])\<rparr>"
  using ring_insert_wf[OF assms] by (simp add: last_n_def)

lemma length_last_n: "length (last_n C xs) = min C (length xs)"
  by (auto simp: last_n_def)

lemma consume_packets_queue:
  assumes "0 < maxsize (packet_queues s ch)" "length (items (packet_queues s ch)) \<le> maxsize (packet_queues s ch)"
  shows "packet_queues (consume_packets parse ch ms s) ch =
      (packet_queues s ch)\<lparr>items := 
          last_n (maxsize (packet_queues s ch)) (items (packet_queues s ch) @ built_records parse ms)\<rparr>"
  using assms
proof (induction ms arbitrary: s)
  case Nil
  then show ?case by (simp add: last_n_def)
next
  case (Cons a ms)
  obtain now msg where a: "a = (now, msg)" by (cases a)
  show ?case
  proof (cases "build_packet parse now msg")
    case (Inl e)
    then show ?thesis using Cons a by (simp add: handle_packet_Inl)
  next
    case (Inr p)
    from handle_packet_queue[OF Inr, of ch s] obtain s' where
      s': "handle_packet parse now ch msg s = Inr s'"
        "packet_queues s' = (packet_queues s)(ch := ring_insert (JObj p) (packet_queues s ch))"
      by blast
    let ?q = "packet_queues s ch"
    have q': "packet_queues s' ch = ?q\<lparr>items := last_n (maxsize ?q) (items ?q @ [JObj p])\<rparr>"
      using s'(2) ring_insert_last_n[OF Cons.prems] by simp
    have wf: "0 < maxsize (packet_queues s' ch)" "length (items (packet_queues s' ch)) \<le> maxsize (packet_queues s' ch)"
      using Cons.prems by (auto simp: q' length_last_n)
    have "packet_queues (consume_packets parse ch (a # ms) s) ch = packet_queues (consume_packets parse ch ms s') ch"
      using a s'(1) by simp
    also have "\<dots> = (packet_queues s' ch)\<lparr>items := last_n (maxsize (packet_queues s' ch)) (items (packet_queues s' ch) @ built_records parse ms)\<rparr>"
      by (rule Cons.IH[OF wf])
    also have "\<dots> = ?q\<lparr>items := last_n (maxsize ?q) (last_n (maxsize ?q) (items ?q @ [JObj p]) @ built_records parse ms)\<rparr>"
      by (simp add: q')
    also have "\<dots> = ?q\<lparr>items := last_n (maxsize ?q) ((items ?q @ [JObj p]) @ built_records parse ms)\<rparr>"
      by (simp only: last_n_append)
    finally show ?thesis using a Inr by simp
  qed
qed


text \<open>
  Claim C2. A channel's ring buffer has the fixed capacity \<open>MAX_QUEUE_SIZE = 500\<close>. After a
  batch of messages from which \<^verbatim>\<open>_handle_packet\<close> inserted more than 500 records, the
  buffer holds exactly the last 500 of them, in arrival order; in general it holds the
  last 500 of its earlier content followed by the inserted records; and one insert into a
  full buffer drops exactly the oldest record before the new one is appended.
\<close>

theorem ring_buffer_keeps_last:
  assumes "maxsize (packet_queues s ch) = MAX_QUEUE_SIZE"
    and "length (items (packet_queues s ch)) \<le> MAX_QUEUE_SIZE"
  shows "(MAX_QUEUE_SIZE < length (built_records parse ms) \<longrightarrow>
            items (packet_queues (consume_packets parse ch ms s) ch) =
              drop (length (built_records parse ms) - MAX_QUEUE_SIZE) (built_records parse ms)
          \<and> length (items (packet_queues (consume_packets parse ch ms s) ch)) = MAX_QUEUE_SIZE)
       \<and> items (packet_queues (consume_packets parse ch ms s) ch) =
            last_n MAX_QUEUE_SIZE (items (packet_queues s ch) @ built_records parse ms)
       \<and> maxsize (packet_queues (consume_packets parse ch ms s) ch) = MAX_QUEUE_SIZE
       \<and> (\<forall>now msg p.
            build_packet parse now msg = Inr p \<and>
            length (items (packet_queues s ch)) = MAX_QUEUE_SIZE \<longrightarrow>
            items (packet_queues (consume_packets parse ch [(now, msg)] s) ch) =
              tl (items (packet_queues s ch)) @ [JObj p])"
proof -
  have pos: "0 < maxsize (packet_queues s ch)"
    using assms(1) by (simp add: MAX_QUEUE_SIZE_def)
  have le: "length (items (packet_queues s ch)) \<le> maxsize (packet_queues s ch)"
    using assms by simp
  have all: "packet_queues (consume_packets parse ch ms s) ch =
      (packet_queues s ch)\<lparr>items :=
          last_n MAX_QUEUE_SIZE (items (packet_queues s ch) @ built_records parse ms)\<rparr>" for ms
    using consume_packets_queue[OF pos le, of parse ms] assms(1) by simp
  have many: "last_n MAX_QUEUE_SIZE (items (packet_queues s ch) @ built_records parse ms) =
      drop (length (built_records parse ms) - MAX_QUEUE_SIZE) (built_records parse ms)"
    if "MAX_QUEUE_SIZE < length (built_records parse ms)"
    using that by (simp add: last_n_def)
  have one: "last_n MAX_QUEUE_SIZE (items (packet_queues s ch) @ [JObj p]) =
      tl (items (packet_queues s ch)) @ [JObj p]"
    if "length (items (packet_queues s ch)) = MAX_QUEUE_SIZE" for p
    using that by (cases "items (packet_queues s ch)") (auto simp: last_n_def MAX_QUEUE_SIZE_def)
  have step: "items (packet_queues (consume_packets parse ch [(now, msg)] s) ch) =
      tl (items (packet_queues s ch)) @ [JObj p]"
    if "build_packet parse now msg = Inr p" "length (items (packet_queues s ch)) = MAX_QUEUE_SIZE"
    for now msg p
    using that one[of p] by (simp only: all) simp
  have c1: "items (packet_queues (consume_packets parse ch ms s) ch) =
      last_n MAX_QUEUE_SIZE (items (packet_queues s ch) @ built_records parse ms)"
    by (simp add: all)
  have c2: "maxsize (packet_queues (consume_packets parse ch ms s) ch) = MAX_QUEUE_SIZE"
    using assms(1) by (simp add: all)
  have c3: "length (items (packet_queues (consume_packets parse ch ms s) ch)) = MAX_QUEUE_SIZE"
    if "MAX_QUEUE_SIZE < length (built_records parse ms)"
    using that by (simp add: all length_last_n)
  show ?thesis
    using c1 c2 c3 many step by metis
qed

lemma build_numbered:
  "build_packet parse (fst (numbered i)) (snd (numbered i)) =
     Inr [(''seq'', JInt (int i)), (''_envelope'', JObj []), (''_received_at'', JInt (int i)),
          (''timestamp'', JInt (int i))]"
  by (simp add: numbered_def build_packet_def merge_headers_def parse_packet_headers_def
      normalise_timestamp_def str_dict_def value_dict_def)

lemma built_records_numbered:
  "built_records parse (map numbered xs) =
     map (\<lambda>i. JObj [(''seq'', JInt (int i)), (''_envelope'', JObj []),
                    (''_received_at'', JInt (int i)), (''timestamp'', JInt (int i))]) xs"
proof (induction xs)
  case Nil
  then show ?case by simp
next
  case (Cons x xs)
  obtain now msg where n: "numbered x = (now, msg)" by (cases "numbered x")
  then have "build_packet parse now msg = Inr [(''seq'', JInt (int x)), (''_envelope'', JObj []),
      (''_received_at'', JInt (int x)), (''timestamp'', JInt (int x))]"
    using build_numbered[of parse x] by simp
  then show ?case using Cons n by simp
qed

theorem ring_buffer_keeps_last_witness:
  "length (built_records (\<lambda>_. None) (map numbered [0..<501])) = 501
   \<and> items (packet_queues (consume_packets (\<lambda>_. None) Uas (map numbered [0..<501]) init_state) Uas) =
       map (\<lambda>i. JObj [(''seq'', JInt (int i)), (''_envelope'', JObj []),
                      (''_received_at'', JInt (int i)), (''timestamp'', JInt (int i))]) [1..<501]"
proof -
  have m: "maxsize (packet_queues init_state Uas) = MAX_QUEUE_SIZE"
    by (simp add: init_state_def new_queue_def)
  have l: "length (items (packet_queues init_state Uas)) \<le> MAX_QUEUE_SIZE"
    by (simp add: init_state_def new_queue_def)
  have n: "length (built_records (\<lambda>_. None) (map numbered [0..<501])) = 501"
    by (simp add: built_records_numbered)
  have "drop 1 (built_records (\<lambda>_. None) (map numbered [0..<501])) =
      map (\<lambda>i. JObj [(''seq'', JInt (int i)), (''_envelope'', JObj []),
                      (''_received_at'', JInt (int i)), (''timestamp'', JInt (int i))]) [1..<501]"
    by (simp only: built_records_numbered drop_map drop_upt) simp
  then show ?thesis
    using ring_buffer_keeps_last[OF m l, of "\<lambda>_. None" "map numbered [0..<501]"] n
    by (simp add: MAX_QUEUE_SIZE_def)
qed

section \<open>Timestamp normalisation\<close>

lemma bitlen_le: "a < 2 ^ k \<Longrightarrow> bitlen a \<le> k"
proof (induction k arbitrary: a)
  case 0
  then show ?case by (simp add: bitlen.simps)
next
  case (Suc k)
  show ?case
  proof (cases "a = 0")
    case True
    then show ?thesis by (simp add: bitlen.simps)
  next
    case False
    have "a div 2 < 2 ^ k" using Suc.prems by auto
    then have "bitlen (a div 2) \<le> k" by (rule Suc.IH)
    with False show ?thesis by (subst bitlen.simps) simp
  qed
qed

text \<open>An integer below \<open>2 ^ 53\<close> in absolute value is a double.\<close>

lemma float_of_small_int:
  assumes "\<bar>n\<bar> < 2 ^ 53"
  shows "float_of_int n = Finite n 0"
proof -
  have "nat \<bar>n\<bar> < 2 ^ 53"
    using assms by (metis nat_less_numeral_power_cancel_iff)
  then have "bitlen (nat \<bar>n\<bar>) \<le> 53" by (rule bitlen_le)
  then have k0: "bitlen (nat \<bar>n\<bar>) - 53 = 0" by simp
  show ?thesis
    by (simp only: float_of_int_def Let_def k0 if_True simp_thms)
qed

lemma normalise_int:
  assumes "\<bar>n\<bar> < 2 ^ 53"
  shows "normalise_timestamp parse now (Some (JInt n)) =
           Inr (if n < 100000000000 then n * 1000 else n)"
  using float_of_small_int[OF assms]
  by (simp add: normalise_timestamp_def)

lemma normalise_float:
  "int_of_float f = Inr t \<Longrightarrow>
     normalise_timestamp parse now (Some (JFloat f)) =
       Inr (if t < 100000000000 then t * 1000 else t)"
  by (simp add: normalise_timestamp_def)

lemma normalise_str:
  "parse s = Some f \<Longrightarrow> int_of_float f = Inr t \<Longrightarrow>
     normalise_timestamp parse now (Some (JStr s)) =
       Inr (if t < 100000000000 then t * 1000 else t)"
  by (simp add: normalise_timestamp_def)

lemma normalise_fallback:
  "normalise_timestamp parse now None = Inr now"
  "normalise_timestamp parse now (Some JNull) = Inr now"
  "parse s = None \<Longrightarrow> normalise_timestamp parse now (Some (JStr s)) = Inr now"
  "parse s = Some NaN \<Longrightarrow> normalise_timestamp parse now (Some (JStr s)) = Inr now"
  "normalise_timestamp parse now (Some (JFloat NaN)) = Inr now"
  "normalise_timestamp parse now (Some (JBool b)) = Inr now"
  "normalise_timestamp parse now (Some (JList xs)) = Inr now"
  "normalise_timestamp parse now (Some (JObj kvs)) = Inr now"
  by (simp_all add: normalise_timestamp_def)

lemma normalise_seconds: "normalise_timestamp parse now (Some (JInt 1700000000)) = Inr 1700000000000"
  using normalise_int[of 1700000000 parse now] by simp

lemma normalise_millis: "normalise_timestamp parse now (Some (JInt 1700000000000)) = Inr 1700000000000"
  using normalise_int[of 1700000000000 parse now] by simp

text \<open>The merge of the headers leaves every other field of the payload as it was.\<close>

lemma merge_headers_other:
  assumes "merge_headers now msg = Inr p"
    and "k \<noteq> ''labels''" "k \<noteq> ''_envelope''" "k \<noteq> ''_received_at''"
  shows "map_of p k = map_of (value_dict (msg_value msg)) k"
  using assms
  by (auto simp: merge_headers_def Let_def AList.update_conv'
      split: if_splits option.splits json.splits)

lemma merge_headers_received:
  assumes "merge_headers now msg = Inr p"
  shows "map_of p ''_received_at'' = Some (JInt now)"
  using assms
  by (auto simp: merge_headers_def Let_def AList.update_conv'
      split: if_splits option.splits json.splits sum.splits)

lemma build_packet_timestamp:
  assumes "build_packet parse now msg = Inr p"
  shows "\<exists>ts. normalise_timestamp parse now (map_of (value_dict (msg_value msg)) ''timestamp'') = Inr ts
           \<and> map_of p ''timestamp'' = Some (JInt ts)
           \<and> map_of p ''_received_at'' = Some (JInt now)"
proof -
  from assms obtain pm where pm: "merge_headers now msg = Inr pm"
    by (auto simp: build_packet_def split: sum.splits)
  from assms pm obtain ts where ts: "normalise_timestamp parse now (map_of pm ''timestamp'') = Inr ts"
    and p: "p = AList.update ''timestamp'' (JInt ts) pm"
    by (auto simp: build_packet_def split: sum.splits)
  have "map_of pm ''timestamp'' = map_of (value_dict (msg_value msg)) ''timestamp''"
    by (rule merge_headers_other[OF pm]) simp_all
  with ts p merge_headers_received[OF pm] show ?thesis
    by (simp add: AList.update_conv')
qed

text \<open>
  Claim C3, as amended. The timestamp of a record is a function of the payload's
  \<^verbatim>\<open>timestamp\<close>, the parser and the receipt time. An integer below \<open>2 ^ 53\<close> in absolute
  value, a finite float (by its truncation \<open>t\<close>) and a string that \<^verbatim>\<open>float\<close> reads as
  a finite value (by its truncation) are multiplied by 1000 when below \<open>10 ^ 11\<close> and kept
  otherwise; a missing value, a \<^verbatim>\<open>null\<close>, a string that \<^verbatim>\<open>float\<close> rejects, a NaN, a
  bool, a list and a dict are replaced by the receipt time; 1700000000 becomes
  1700000000000 and 1700000000000 stays. The record that \<^verbatim>\<open>_handle_packet\<close> publishes
  carries that value under \<^verbatim>\<open>timestamp\<close> and the receipt time under \<^verbatim>\<open>_received_at\<close>.
\<close>

theorem timestamp_normalisation:
  "(\<bar>n\<bar> < 2 ^ 53 \<longrightarrow>
      normalise_timestamp parse now (Some (JInt n)) =
        Inr (if n < 100000000000 then n * 1000 else n))
   \<and> (int_of_float f = Inr t \<longrightarrow>
        normalise_timestamp parse now (Some (JFloat f)) =
          Inr (if t < 100000000000 then t * 1000 else t))
   \<and> (parse s = Some f \<and> int_of_float f = Inr t \<longrightarrow>
        normalise_timestamp parse now (Some (JStr s)) =
          Inr (if t < 100000000000 then t * 1000 else t))
   \<and> normalise_timestamp parse now None = Inr now
   \<and> normalise_timestamp parse now (Some JNull) = Inr now
   \<and> (parse u = None \<or> parse u = Some NaN \<longrightarrow>
        normalise_timestamp parse now (Some (JStr u)) = Inr now)
   \<and> normalise_timestamp parse now (Some (JFloat NaN)) = Inr now
   \<and> normalise_timestamp parse now (Some (JBool b)) = Inr now
   \<and> normalise_timestamp parse now (Some (JList xs)) = Inr now
   \<and> normalise_timestamp parse now (Some (JObj kvs)) = Inr now
   \<and> normalise_timestamp parse now (Some (JInt 1700000000)) = Inr 1700000000000
   \<and> normalise_timestamp parse now (Some (JInt 1700000000000)) = Inr 1700000000000
   \<and> (build_packet parse now msg = Inr p \<longrightarrow>
        (\<exists>ts. normalise_timestamp parse now
                 (map_of (value_dict (msg_value msg)) ''timestamp'') = Inr ts
              \<and> map_of p ''timestamp'' = Some (JInt ts)
              \<and> map_of p ''_received_at'' = Some (JInt now)))"
  using normalise_int[of n parse now] normalise_float[of f t parse now]
    normalise_str[of parse s f t now] normalise_fallback(3,4)[of parse u now]
    build_packet_timestamp[of parse now msg p]
  by (simp only: normalise_fallback(1,2,5,6,7,8) normalise_seconds normalise_millis simp_thms)
    blast

theorem timestamp_normalisation_witness:
  "normalise_timestamp demo_parse 1234 (Some (JInt 1600000000)) = Inr 1600000000000
   \<and> normalise_timestamp demo_parse 1234 (Some (JFloat (Finite 3400000001 (- 1)))) =
       Inr 1700000000000
   \<and> normalise_timestamp demo_parse 1234 (Some (JStr ''1.5e9'')) = Inr 1500000000000
   \<and> normalise_timestamp demo_parse 1234 (Some (JStr ''soon'')) = Inr 1234
   \<and> (\<exists>ts. normalise_timestamp demo_parse 1234 (Some (JStr ''1.5e9'')) = Inr ts
         \<and> map_of
              [(''timestamp'', JInt 1500000000000), (''_envelope'', JObj []),
               (''_received_at'', JInt 1234)] ''timestamp'' = Some (JInt ts))"
proof -
  have b: "build_packet demo_parse 1234
             \<lparr>msg_value = JObj [(''timestamp'', JStr ''1.5e9'')], msg_headers = []\<rparr> =
           Inr [(''timestamp'', JInt 1500000000000), (''_envelope'', JObj []),
                (''_received_at'', JInt 1234)]"
    by (simp add: build_packet_def merge_headers_def parse_packet_headers_def value_dict_def
        normalise_timestamp_def str_dict_def demo_parse_def)
  have i: "\<bar>1600000000 :: int\<bar> < 2 ^ 53" by simp
  have f: "int_of_float (Finite 3400000001 (- 1)) = Inr 1700000000" by simp
  have s: "demo_parse ''1.5e9'' = Some (Finite 1500000000 0)
           \<and> int_of_float (Finite 1500000000 0) = Inr 1500000000"
    by (simp add: demo_parse_def)
  have u: "demo_parse ''soon'' = None" by (simp add: demo_parse_def)
  show ?thesis
    using timestamp_normalisation[where n = 1600000000 and parse = demo_parse and now = 1234
        and f = "Finite 3400000001 (- 1)" and t = 1700000000 and u = "''soon''"
        and msg = "\<lparr>msg_value = JObj [(''timestamp'', JStr ''1.5e9'')], msg_headers = []\<rparr>"
        and p = "[(''timestamp'', JInt 1500000000000), (''_envelope'', JObj []),
                  (''_received_at'', JInt 1234)]"]
      timestamp_normalisation[where parse = demo_parse and now = 1234
        and f = "Finite 1500000000 0" and t = 1500000000 and s = "''1.5e9''"]
      b i f s u
    by (simp add: value_dict_def)
qed

text \<open>
  The claim as it is written fails on an integer that is no double: \<open>2 ^ 53 + 1\<close> is
  above the threshold and is not kept, since \<^verbatim>\<open>float\<close> rounds it.
\<close>

lemma bitlen_2_53_1: "bitlen 9007199254740993 = 54"
  by (simp add: bitlen.simps)

lemma float_of_int_2_53_1: "float_of_int 9007199254740993 = Finite 4503599627370496 1"
proof -
  have k: "bitlen (nat \<bar>9007199254740993\<bar>) - 53 = 1" by (simp add: bitlen_2_53_1)
  have p: "(2::nat) ^ 1024 \<le> (q::nat) * 2 ^ 1 \<longleftrightarrow> 2 ^ 1023 \<le> q" for q by simp
  show ?thesis
    unfolding float_of_int_def Let_def k p
    by simp
qed

theorem timestamp_large_int_counterexample:
  "normalise_timestamp demo_parse 0 (Some (JInt 9007199254740993)) = Inr 9007199254740992
   \<and> (100000000000 :: int) \<le> 9007199254740993"
  by (simp add: normalise_timestamp_def float_of_int_2_53_1)

text \<open>
  An infinite value is not caught by the handler's \<^verbatim>\<open>except (ValueError, TypeError)\<close>:
  \<^verbatim>\<open>int\<close> of an infinity raises \<^verbatim>\<open>OverflowError\<close>, and the record is not published.
\<close>

lemma timestamp_infinite_raises:
  "normalise_timestamp parse now (Some (JFloat PosInf)) = Inl OverflowError"
  "normalise_timestamp demo_parse now (Some (JStr ''1e999'')) = Inl OverflowError"
  "handle_packet demo_parse now ch
     \<lparr>msg_value = JObj [(''timestamp'', JStr ''1e999'')], msg_headers = []\<rparr> s = Inl OverflowError"
  by (simp_all add: normalise_timestamp_def demo_parse_def handle_packet_def build_packet_def
      merge_headers_def parse_packet_headers_def value_dict_def str_dict_def)

section \<open>Fan-out\<close>

lemma push_all_distinct:
  assumes "distinct qs"
  shows "push_all item qs h dead =
           ((\<lambda>q. if q \<in> set qs \<and> \<not> full (h q) then (h q)\<lparr>items := items (h q) @ [item]\<rparr> else h q),
            dead @ filter (\<lambda>q. full (h q)) qs)"
  using assms
proof (induction qs arbitrary: h dead)
  case Nil
  then show ?case by simp
next
  case (Cons q qs)
  then have nq: "q \<notin> set qs" and d: "distinct qs" by auto
  show ?case
  proof (cases "full (h q)")
    case True
    then show ?thesis
      using Cons.IH[OF d, of h "dead @ [q]"] by (auto simp: put_nowait_def)
  next
    case False
    let ?h = "h(q := (h q)\<lparr>items := items (h q) @ [item]\<rparr>)"
    have same: "\<And>x. x \<in> set qs \<Longrightarrow> ?h x = h x" using nq by auto
    have f: "filter (\<lambda>x. full (?h x)) qs = filter (\<lambda>x. full (h x)) qs"
      using nq by (intro filter_cong refl) (metis same)
    have g: "(\<lambda>x. if x \<in> set qs \<and> \<not> full (?h x) then (?h x)\<lparr>items := items (?h x) @ [item]\<rparr> else ?h x)
        = (\<lambda>x. if x \<in> set (q # qs) \<and> \<not> full (h x) then (h x)\<lparr>items := items (h x) @ [item]\<rparr> else h x)"
    proof
      fix x
      show "(if x \<in> set qs \<and> \<not> full (?h x) then (?h x)\<lparr>items := items (?h x) @ [item]\<rparr> else ?h x)
        = (if x \<in> set (q # qs) \<and> \<not> full (h x) then (h x)\<lparr>items := items (h x) @ [item]\<rparr> else h x)"
        using False nq by (cases "x = q") auto
    qed
    have "push_all item (q # qs) h dead = push_all item qs ?h dead"
      using False by (simp add: put_nowait_def)
    also have "\<dots> = ((\<lambda>x. if x \<in> set qs \<and> \<not> full (?h x) then (?h x)\<lparr>items := items (?h x) @ [item]\<rparr> else ?h x),
        dead @ filter (\<lambda>x. full (?h x)) qs)"
      by (rule Cons.IH[OF d])
    finally show ?thesis
      using False by (simp only: g f) simp
  qed
qed

lemma remove_dead:
  assumes "distinct l"
  shows "foldl (\<lambda>l q. remove1 q l) l ds = filter (\<lambda>x. x \<notin> set ds) l"
  using assms
proof (induction ds arbitrary: l)
  case Nil
  then show ?case by simp
next
  case (Cons d ds)
  have "remove1 d l = filter (\<lambda>x. x \<noteq> d) l"
    using Cons.prems by (simp add: distinct_remove1_removeAll removeAll_filter_not_eq) metis
  moreover have "distinct (remove1 d l)" using Cons.prems by simp
  ultimately show ?case using Cons.IH[of "remove1 d l"] by (auto intro: filter_cong)
qed

lemma sse_push_distinct:
  assumes "distinct subs"
  shows "sse_push item subs h =
           (filter (\<lambda>q. \<not> full (h q)) subs,
            (\<lambda>q. if q \<in> set subs \<and> \<not> full (h q) then (h q)\<lparr>items := items (h q) @ [item]\<rparr> else h q))"
proof -
  have "filter (\<lambda>x. x \<notin> set (filter (\<lambda>q. full (h q)) subs)) subs = filter (\<lambda>q. \<not> full (h q)) subs"
    by (rule filter_cong) auto
  then show ?thesis
    by (simp add: sse_push_def push_all_distinct[OF assms] remove_dead[OF assms])
qed


lemma publish_distinct:
  assumes "distinct (subscribers feed s)"
  shows "subscribers feed (publish feed item s) = filter (\<lambda>q. \<not> full (heap s q)) (subscribers feed s)"
    and "heap (publish feed item s) =
           (\<lambda>q. if q \<in> set (subscribers feed s) \<and> \<not> full (heap s q)
                then (heap s q)\<lparr>items := items (heap s q) @ [item]\<rparr> else heap s q)"
proof -
  have p: "publish feed item s =
      set_subscribers feed (filter (\<lambda>q. \<not> full (heap s q)) (subscribers feed s))
        (s\<lparr>heap := (\<lambda>q. if q \<in> set (subscribers feed s) \<and> \<not> full (heap s q)
                then (heap s q)\<lparr>items := items (heap s q) @ [item]\<rparr> else heap s q)\<rparr>)"
    by (simp only: publish_def sse_push_distinct[OF assms] prod.case)
  show "subscribers feed (publish feed item s) = filter (\<lambda>q. \<not> full (heap s q)) (subscribers feed s)"
    unfolding p by (cases feed) (simp_all add: subscribers_def set_subscribers_def)
  show "heap (publish feed item s) =
           (\<lambda>q. if q \<in> set (subscribers feed s) \<and> \<not> full (heap s q)
                then (heap s q)\<lparr>items := items (heap s q) @ [item]\<rparr> else heap s q)"
    unfolding p by (cases feed) (simp_all add: subscribers_def set_subscribers_def)
qed

lemma stream_get_head:
  "items (heap s a) = x # xs \<Longrightarrow>
     stream_get a s = (Some x, s\<lparr>heap := (heap s)(a := (heap s a)\<lparr>items := xs\<rparr>)\<rparr>)"
  by (simp add: stream_get_def get_timeout_def get_nowait_def)

lemma handle_packet_publish:
  assumes "build_packet parse now msg = Inr p"
  shows "\<exists>s'. handle_packet parse now ch msg s = Inr s'
           \<and> sse_subscribers s' ch = subscribers (Some ch) (publish (Some ch) (JObj p) s)
           \<and> heap s' = heap (publish (Some ch) (JObj p) s)"
  using assms by (simp add: handle_packet_def Let_def subscribers_def)

lemma response_deliver_no_waiter:
  "response_deliver resp None s = publish None (JObj resp) s"
  by (simp add: response_deliver_def waiter_put_def)

lemma publish_all_untouched:
  assumes "distinct (subscribers feed s)" and "q \<notin> set (subscribers feed s)"
  shows "heap (publish_all feed xs s) q = heap s q
       \<and> q \<notin> set (subscribers feed (publish_all feed xs s))"
  using assms
proof (induction xs arbitrary: s)
  case Nil
  then show ?case by simp
next
  case (Cons x xs)
  have d: "distinct (subscribers feed (publish feed x s))"
    and n: "q \<notin> set (subscribers feed (publish feed x s))"
    and h: "heap (publish feed x s) q = heap s q"
    using Cons.prems by (simp_all add: publish_distinct[OF Cons.prems(1)])
  from Cons.IH[OF d n] h show ?case by simp
qed

lemma publish_all_prefix:
  assumes "distinct (subscribers feed s)" and "q \<in> set (subscribers feed s)"
  shows "\<exists>k \<le> length xs.
           heap (publish_all feed xs s) q = (heap s q)\<lparr>items := items (heap s q) @ take k xs\<rparr>
         \<and> (q \<in> set (subscribers feed (publish_all feed xs s)) \<longrightarrow> k = length xs)"
  using assms
proof (induction xs arbitrary: s)
  case Nil
  then show ?case by simp
next
  case (Cons x xs)
  have d: "distinct (subscribers feed (publish feed x s))"
    using Cons.prems by (simp add: publish_distinct[OF Cons.prems(1)])
  show ?case
  proof (cases "full (heap s q)")
    case True
    then have n: "q \<notin> set (subscribers feed (publish feed x s))"
      and h: "heap (publish feed x s) q = heap s q"
      using Cons.prems by (simp_all add: publish_distinct[OF Cons.prems(1)])
    from publish_all_untouched[OF d n, of xs] h
    have "heap (publish_all feed (x # xs) s) q = (heap s q)\<lparr>items := items (heap s q) @ take 0 (x # xs)\<rparr>"
      "q \<notin> set (subscribers feed (publish_all feed (x # xs) s))"
      by simp_all
    then show ?thesis by blast
  next
    case False
    then have m: "q \<in> set (subscribers feed (publish feed x s))"
      and h: "heap (publish feed x s) q = (heap s q)\<lparr>items := items (heap s q) @ [x]\<rparr>"
      using Cons.prems by (simp_all add: publish_distinct[OF Cons.prems(1)])
    from Cons.IH[OF d m] obtain k where k: "k \<le> length xs"
      "heap (publish_all feed xs (publish feed x s)) q =
         (heap (publish feed x s) q)\<lparr>items := items (heap (publish feed x s) q) @ take k xs\<rparr>"
      "q \<in> set (subscribers feed (publish_all feed xs (publish feed x s))) \<longrightarrow> k = length xs"
      by blast
    have "Suc k \<le> length (x # xs)" using k(1) by simp
    moreover have "heap (publish_all feed (x # xs) s) q =
        (heap s q)\<lparr>items := items (heap s q) @ take (Suc k) (x # xs)\<rparr>"
      using k(2) by (simp add: h)
    moreover have "q \<in> set (subscribers feed (publish_all feed (x # xs) s)) \<longrightarrow>
        Suc k = length (x # xs)"
      using k(3) by simp
    ultimately show ?thesis by blast
  qed
qed

text \<open>
  Claim C7. One publish of an item to the registered subscriber queues of a feed
  (a packet channel or the responses), each queue being registered once: a queue that is
  full is no longer registered after the publish and is left as it was, so the item is
  lost for it; every other registered queue stays registered, in the same order, and has
  the item appended at its tail. The generator of a stream takes the head of its queue, so
  a subscriber sees the delivered items in the order of their publication: of a sequence
  of items published one after the other a registered queue receives a prefix, in order,
  and all of it when it is still registered at the end.
  \<^verbatim>\<open>_handle_packet\<close> and \<^verbatim>\<open>_handle_response\<close> publish in this way.
\<close>

theorem publish_drops_full_subscribers:
  assumes "distinct (subscribers feed s)"
  shows "(\<forall>q \<in> set (subscribers feed s).
            (full (heap s q) \<longrightarrow>
               q \<notin> set (subscribers feed (publish feed item s)) \<and>
               heap (publish feed item s) q = heap s q)
          \<and> (\<not> full (heap s q) \<longrightarrow>
               q \<in> set (subscribers feed (publish feed item s)) \<and>
               heap (publish feed item s) q = (heap s q)\<lparr>items := items (heap s q) @ [item]\<rparr>))
       \<and> subscribers feed (publish feed item s) =
           filter (\<lambda>q. \<not> full (heap s q)) (subscribers feed s)
       \<and> (\<forall>a x xs. items (heap s a) = x # xs \<longrightarrow>
             stream_get a s = (Some x, s\<lparr>heap := (heap s)(a := (heap s a)\<lparr>items := xs\<rparr>)\<rparr>))
       \<and> (\<forall>parse now ch msg p.
             build_packet parse now msg = Inr p \<longrightarrow>
             (\<exists>s'. handle_packet parse now ch msg s = Inr s'
                \<and> sse_subscribers s' ch = subscribers (Some ch) (publish (Some ch) (JObj p) s)
                \<and> heap s' = heap (publish (Some ch) (JObj p) s)))
       \<and> (\<forall>resp. response_deliver resp None s = publish None (JObj resp) s)
       \<and> (\<forall>q \<in> set (subscribers feed s). \<forall>xs. \<exists>k \<le> length xs.
             heap (publish_all feed xs s) q = (heap s q)\<lparr>items := items (heap s q) @ take k xs\<rparr>
             \<and> (q \<in> set (subscribers feed (publish_all feed xs s)) \<longrightarrow> k = length xs))"
proof -
  have one: "(\<forall>q \<in> set (subscribers feed s).
            (full (heap s q) \<longrightarrow>
               q \<notin> set (subscribers feed (publish feed item s)) \<and>
               heap (publish feed item s) q = heap s q)
          \<and> (\<not> full (heap s q) \<longrightarrow>
               q \<in> set (subscribers feed (publish feed item s)) \<and>
               heap (publish feed item s) q = (heap s q)\<lparr>items := items (heap s q) @ [item]\<rparr>))
       \<and> subscribers feed (publish feed item s) =
           filter (\<lambda>q. \<not> full (heap s q)) (subscribers feed s)
       \<and> (\<forall>a x xs. items (heap s a) = x # xs \<longrightarrow>
             stream_get a s = (Some x, s\<lparr>heap := (heap s)(a := (heap s a)\<lparr>items := xs\<rparr>)\<rparr>))
       \<and> (\<forall>parse now ch msg p.
             build_packet parse now msg = Inr p \<longrightarrow>
             (\<exists>s'. handle_packet parse now ch msg s = Inr s'
                \<and> sse_subscribers s' ch = subscribers (Some ch) (publish (Some ch) (JObj p) s)
                \<and> heap s' = heap (publish (Some ch) (JObj p) s)))
       \<and> (\<forall>resp. response_deliver resp None s = publish None (JObj resp) s)"
    using publish_distinct[OF assms, of item] stream_get_head[of s]
      handle_packet_publish[of _ _ _ _ _ s] response_deliver_no_waiter[of _ s]
    by auto
  have many: "\<forall>q \<in> set (subscribers feed s). \<forall>xs. \<exists>k \<le> length xs.
             heap (publish_all feed xs s) q = (heap s q)\<lparr>items := items (heap s q) @ take k xs\<rparr>
             \<and> (q \<in> set (subscribers feed (publish_all feed xs s)) \<longrightarrow> k = length xs)"
    using publish_all_prefix[OF assms] by blast
  from one many show ?thesis by (elim conjE) (intro conjI; assumption)
qed

theorem publish_drops_full_subscribers_witness:
  "distinct (subscribers None two_subscribers)
   \<and> full (heap two_subscribers 0) \<and> \<not> full (heap two_subscribers 1)
   \<and> subscribers None (publish None (JStr ''r'') two_subscribers) = [1]
   \<and> items (heap (publish None (JStr ''r'') two_subscribers) 0) = [JNull]
   \<and> items (heap (publish None (JStr ''r'') two_subscribers) 1) = [JStr ''r'']
   \<and> fst (stream_get 0 two_subscribers) = Some JNull"
proof -
  have d: "distinct (subscribers None two_subscribers)"
    by (simp add: subscribers_def two_subscribers_def)
  have f: "full (heap two_subscribers 0)" "\<not> full (heap two_subscribers 1)"
    "subscribers None two_subscribers = [0, 1]" "items (heap two_subscribers 0) = [JNull]"
    "items (heap two_subscribers 1) = []"
    by (simp_all add: two_subscribers_def full_def new_queue_def subscribers_def)
  show ?thesis
    using publish_drops_full_subscribers[OF d, of "JStr ''r''"] d f
    by simp
qed

section \<open>Responses without a waiter\<close>

lemma response_lookup_unmatched:
  assumes "get_default (value_dict (msg_value msg)) ''request_id'' (JStr []) = rid"
    and "hashable rid"
    and "\<forall>r. rid = JStr r \<longrightarrow> pending_responses s r = None"
  shows "response_lookup now msg s =
           Inr (AList.update ''_received_at'' (JInt now) (value_dict (msg_value msg)), None, s)"
proof (cases rid)
  case (JStr r)
  then have "pending_responses s r = None" using assms(3) by simp
  then have "(pending_responses s)(r := None) = pending_responses s" by (rule fun_upd_idem)
  then show ?thesis using assms(1) JStr \<open>pending_responses s r = None\<close>
    by (simp add: response_lookup_def Let_def)
qed (use assms in \<open>simp_all add: response_lookup_def Let_def\<close>)

text \<open>
  Claim C1, as amended. A consumed response whose \<^verbatim>\<open>request_id\<close> is missing or is a
  hashable JSON value (not a list, not an object) under which no waiter is registered:
  \<^verbatim>\<open>_handle_response\<close> returns without raising, leaves the pending map as it was, and
  every registered response subscriber queue that is not full stays registered and has
  the envelope, stamped with its receipt time, appended.
\<close>

theorem unmatched_response_is_broadcast:
  assumes "get_default (value_dict (msg_value msg)) ''request_id'' (JStr []) = rid"
    and "hashable rid"
    and "\<forall>r. rid = JStr r \<longrightarrow> pending_responses s r = None"
    and "distinct (response_sse_subscribers s)"
  shows "\<exists>s'. handle_response now msg s = Inr s'
           \<and> pending_responses s' = pending_responses s
           \<and> (\<forall>q \<in> set (response_sse_subscribers s).
                 \<not> full (heap s q) \<longrightarrow>
                   q \<in> set (response_sse_subscribers s') \<and>
                   heap s' q = (heap s q)\<lparr>items := items (heap s q) @
                     [JObj (AList.update ''_received_at'' (JInt now) (value_dict (msg_value msg)))]\<rparr>)"
proof -
  let ?resp = "AList.update ''_received_at'' (JInt now) (value_dict (msg_value msg))"
  have d: "distinct (subscribers None s)" using assms(4) by (simp add: subscribers_def)
  have h: "handle_response now msg s = Inr (publish None (JObj ?resp) s)"
    using response_lookup_unmatched[OF assms(1-3), of now]
    by (simp add: handle_response_def response_deliver_no_waiter)
  show ?thesis
    using publish_distinct[OF d, of "JObj ?resp"]
    by (simp add: h subscribers_def)
qed

text \<open>
  With a \<^verbatim>\<open>request_id\<close> that is a list, which matches no waiter, and one waiter pending,
  \<^verbatim>\<open>pending_responses.pop\<close> raises and nothing is broadcast.
\<close>

theorem unmatched_response_unhashable_counterexample:
  "handle_response 0 \<lparr>msg_value = JObj [(''request_id'', JList [])], msg_headers = []\<rparr> one_waiter
     = Inl TypeError"
  by (simp add: handle_response_def response_lookup_def one_waiter_def init_state_def
      value_dict_def get_default_def)


theorem unmatched_response_is_broadcast_witness:
  "hashable (JStr ''zzz'')
   \<and> pending_responses two_subscribers ''zzz'' = None
   \<and> distinct (response_sse_subscribers two_subscribers)
   \<and> \<not> full (heap two_subscribers 1)
   \<and> (\<exists>s'. handle_response 5
               \<lparr>msg_value = JObj [(''request_id'', JStr ''zzz'')], msg_headers = []\<rparr>
               two_subscribers = Inr s'
          \<and> pending_responses s' = pending_responses two_subscribers
          \<and> 1 \<in> set (response_sse_subscribers s')
          \<and> items (heap s' 1) =
              [JObj [(''request_id'', JStr ''zzz''), (''_received_at'', JInt 5)]])"
proof -
  let ?m = "\<lparr>msg_value = JObj [(''request_id'', JStr ''zzz'')], msg_headers = []\<rparr>"
  have a: "get_default (value_dict (msg_value ?m)) ''request_id'' (JStr []) = JStr ''zzz''"
    by (simp add: get_default_def value_dict_def)
  have b: "hashable (JStr ''zzz'')" by simp
  have c: "\<forall>r. JStr ''zzz'' = JStr r \<longrightarrow> pending_responses two_subscribers r = None"
    by (simp add: two_subscribers_def init_state_def)
  have d: "distinct (response_sse_subscribers two_subscribers)"
    by (simp add: two_subscribers_def)
  have e: "response_sse_subscribers two_subscribers = [0, 1]"
    "\<not> full (heap two_subscribers 1)" "heap two_subscribers 1 = new_queue 100"
    "pending_responses two_subscribers ''zzz'' = None"
    by (simp_all add: two_subscribers_def full_def new_queue_def init_state_def)
  show ?thesis
    using unmatched_response_is_broadcast[OF a b c d, of 5] d e
    by (auto simp: value_dict_def new_queue_def)
qed

section \<open>Headers, labels and the envelope\<close>















lemma merge_headers_ok:
  assumes "map_of (value_dict (msg_value msg)) ''labels'' = None
           \<or> (\<exists>ls. map_of (value_dict (msg_value msg)) ''labels'' = Some (JObj ls))"
  shows "\<exists>p. merge_headers now msg = Inr p"
  using assms by (auto simp: merge_headers_def Let_def)








section \<open>Values that are not objects\<close>

lemma value_dict_non_object: "\<forall>d. v \<noteq> JObj d \<Longrightarrow> value_dict v = []"
  by (cases v) (simp_all add: value_dict_def)

lemma build_packet_cong:
  assumes "value_dict (msg_value m1) = value_dict (msg_value m2)" "msg_headers m1 = msg_headers m2"
  shows "build_packet parse now m1 = build_packet parse now m2"
  using assms
  by (simp add: build_packet_def merge_headers_def parse_packet_headers_def envelope_def
      label_headers_def header_dict_def)

lemma build_packet_empty:
  assumes "value_dict (msg_value msg) = []"
  shows "\<exists>p. build_packet parse now msg = Inr p
           \<and> map_of p ''timestamp'' = Some (JInt now)
           \<and> map_of p ''_received_at'' = Some (JInt now)"
proof -
  have "map_of (value_dict (msg_value msg)) ''labels'' = None
        \<or> (\<exists>ls. map_of (value_dict (msg_value msg)) ''labels'' = Some (JObj ls))"
    using assms by simp
  from merge_headers_ok[OF this] obtain pm where pm: "merge_headers now msg = Inr pm" ..
  have "map_of pm ''timestamp'' = map_of (value_dict (msg_value msg)) ''timestamp''"
    by (rule merge_headers_other[OF pm]) simp_all
  then have t: "map_of pm ''timestamp'' = None" using assms by simp
  have r: "map_of pm ''_received_at'' = Some (JInt now)" by (rule merge_headers_received[OF pm])
  show ?thesis
    using pm t r by (simp add: build_packet_def normalise_timestamp_def AList.update_conv')
qed

lemma handle_response_empty:
  assumes "value_dict (msg_value msg) = []"
    and "distinct (response_sse_subscribers s)"
    and "\<forall>r a. pending_responses s r = Some a \<longrightarrow> a \<notin> set (response_sse_subscribers s)"
  shows "\<exists>s'. handle_response now msg s = Inr s'
          \<and> (\<forall>q \<in> set (response_sse_subscribers s).
                \<not> full (heap s q) \<longrightarrow>
                  q \<in> set (response_sse_subscribers s') \<and>
                  heap s' q = (heap s q)\<lparr>items := items (heap s q) @
                    [JObj [(''_received_at'', JInt now)]]\<rparr>)"
proof -
  let ?resp = "[(''_received_at'', JInt now)]"
  let ?s1 = "s\<lparr>pending_responses := (pending_responses s)([] := None)\<rparr>"
  have lk: "response_lookup now msg s = Inr (?resp, pending_responses s [], ?s1)"
    using assms(1) by (simp add: response_lookup_def get_default_def)
  let ?s2 = "waiter_put ?resp (pending_responses s []) ?s1"
  have same: "heap ?s2 q = heap s q" if "q \<in> set (response_sse_subscribers s)" for q
    using that assms(3) by (auto simp: waiter_put_def split: option.splits sum.splits)
  have hr: "handle_response now msg s = Inr (publish None (JObj ?resp) ?s2)"
    by (simp add: handle_response_def lk response_deliver_def)
  have sub: "response_sse_subscribers ?s2 = response_sse_subscribers s"
    by (simp add: waiter_put_def split: option.splits sum.splits)
  have d: "distinct (subscribers None ?s2)" using assms(2) by (simp add: subscribers_def sub)
  show ?thesis
    using publish_distinct[OF d, of "JObj ?resp"] same
    by (auto simp: hr subscribers_def sub)
qed

lemma handle_packet_effect:
  assumes "build_packet parse now msg = Inr p"
    and "distinct (sse_subscribers s ch)"
    and "maxsize (packet_queues s ch) = MAX_QUEUE_SIZE"
    and "length (items (packet_queues s ch)) \<le> MAX_QUEUE_SIZE"
  shows "\<exists>s'. handle_packet parse now ch msg s = Inr s'
          \<and> (\<forall>q \<in> set (sse_subscribers s ch).
                \<not> full (heap s q) \<longrightarrow>
                  q \<in> set (sse_subscribers s' ch) \<and>
                  heap s' q = (heap s q)\<lparr>items := items (heap s q) @ [JObj p]\<rparr>)
          \<and> items (packet_queues s' ch) =
               last_n MAX_QUEUE_SIZE (items (packet_queues s ch) @ [JObj p])"
proof -
  from handle_packet_publish[OF assms(1), of ch s] obtain s' where
    s': "handle_packet parse now ch msg s = Inr s'"
    and subs: "sse_subscribers s' ch = subscribers (Some ch) (publish (Some ch) (JObj p) s)"
    and hp: "heap s' = heap (publish (Some ch) (JObj p) s)"
    by blast
  from handle_packet_queue[OF assms(1), of ch s] s'
  have pq: "packet_queues s' = (packet_queues s)(ch := ring_insert (JObj p) (packet_queues s ch))"
    by simp
  have pos: "0 < maxsize (packet_queues s ch)" using assms(3) by (simp add: MAX_QUEUE_SIZE_def)
  have le: "length (items (packet_queues s ch)) \<le> maxsize (packet_queues s ch)"
    using assms(3,4) by simp
  have ring: "items (packet_queues s' ch) =
               last_n MAX_QUEUE_SIZE (items (packet_queues s ch) @ [JObj p])"
    using ring_insert_last_n[OF pos le, of "JObj p"] assms(3) by (simp add: pq)
  have d: "distinct (subscribers (Some ch) s)" using assms(2) by (simp add: subscribers_def)
  have "\<forall>q \<in> set (sse_subscribers s ch).
                \<not> full (heap s q) \<longrightarrow>
                  q \<in> set (sse_subscribers s' ch) \<and>
                  heap s' q = (heap s q)\<lparr>items := items (heap s q) @ [JObj p]\<rparr>"
    using publish_distinct[OF d, of "JObj p"] by (simp add: subs hp subscribers_def)
  with s' ring show ?thesis by blast
qed

text \<open>
  Claim C10. A consumed message whose decoded value is not a JSON object (a list, a
  string, a number, a bool, \<^verbatim>\<open>null\<close>): \<^verbatim>\<open>_handle_packet\<close> and \<^verbatim>\<open>_handle_response\<close>
  both return without raising. The packet handler builds the record it would build from
  an empty object, with the receipt time as its timestamp, appends it to every registered
  subscriber queue of the channel that is not full, and inserts it into the ring buffer;
  the response handler appends the empty envelope, stamped with the receipt time, to
  every registered response subscriber queue that is not full. The state is one in which
  every queue is registered once, the ring buffer holds at most its 500 records, and no
  waiter queue is a subscriber queue.
\<close>

theorem non_object_value_is_substituted:
  assumes "\<forall>d. msg_value msg \<noteq> JObj d"
    and "distinct (sse_subscribers s ch)"
    and "distinct (response_sse_subscribers s)"
    and "maxsize (packet_queues s ch) = MAX_QUEUE_SIZE"
    and "length (items (packet_queues s ch)) \<le> MAX_QUEUE_SIZE"
    and "\<forall>r a. pending_responses s r = Some a \<longrightarrow> a \<notin> set (response_sse_subscribers s)"
  shows "\<exists>p s' s''.
          build_packet parse now msg = Inr p
        \<and> build_packet parse now (msg\<lparr>msg_value := JObj []\<rparr>) = Inr p
        \<and> map_of p ''timestamp'' = Some (JInt now)
        \<and> map_of p ''_received_at'' = Some (JInt now)
        \<and> handle_packet parse now ch msg s = Inr s'
        \<and> (\<forall>q \<in> set (sse_subscribers s ch).
              \<not> full (heap s q) \<longrightarrow>
                q \<in> set (sse_subscribers s' ch) \<and>
                heap s' q = (heap s q)\<lparr>items := items (heap s q) @ [JObj p]\<rparr>)
        \<and> items (packet_queues s' ch) =
             last_n MAX_QUEUE_SIZE (items (packet_queues s ch) @ [JObj p])
        \<and> handle_response now msg s = Inr s''
        \<and> (\<forall>q \<in> set (response_sse_subscribers s).
              \<not> full (heap s q) \<longrightarrow>
                q \<in> set (response_sse_subscribers s'') \<and>
                heap s'' q = (heap s q)\<lparr>items := items (heap s q) @
                  [JObj [(''_received_at'', JInt now)]]\<rparr>)"
proof -
  have v: "value_dict (msg_value msg) = []"
    by (rule value_dict_non_object[OF assms(1)])
  from build_packet_empty[OF v, of parse now] obtain p where
    p: "build_packet parse now msg = Inr p" "map_of p ''timestamp'' = Some (JInt now)"
      "map_of p ''_received_at'' = Some (JInt now)"
    by blast
  have "build_packet parse now (msg\<lparr>msg_value := JObj []\<rparr>) = build_packet parse now msg"
  proof (rule build_packet_cong)
    have "value_dict (msg_value (msg\<lparr>msg_value := JObj []\<rparr>)) = []"
      by (simp add: value_dict_def)
    then show "value_dict (msg_value (msg\<lparr>msg_value := JObj []\<rparr>)) = value_dict (msg_value msg)"
      by (simp only: v)
  qed simp
  then have p': "build_packet parse now (msg\<lparr>msg_value := JObj []\<rparr>) = Inr p"
    using p(1) by simp
  from handle_packet_effect[OF p(1) assms(2,4,5)] obtain s' where
    s': "handle_packet parse now ch msg s = Inr s'"
      "\<forall>q \<in> set (sse_subscribers s ch).
              \<not> full (heap s q) \<longrightarrow>
                q \<in> set (sse_subscribers s' ch) \<and>
                heap s' q = (heap s q)\<lparr>items := items (heap s q) @ [JObj p]\<rparr>"
      "items (packet_queues s' ch) =
             last_n MAX_QUEUE_SIZE (items (packet_queues s ch) @ [JObj p])"
    by blast
  from handle_response_empty[OF v assms(3,6), of now] obtain s'' where
    s'': "handle_response now msg s = Inr s''"
      "\<forall>q \<in> set (response_sse_subscribers s).
              \<not> full (heap s q) \<longrightarrow>
                q \<in> set (response_sse_subscribers s'') \<and>
                heap s'' q = (heap s q)\<lparr>items := items (heap s q) @
                  [JObj [(''_received_at'', JInt now)]]\<rparr>"
    by blast
  show ?thesis
    using p p' s' s'' by blast
qed


theorem non_object_value_is_substituted_witness:
  "\<exists>s' s''.
      build_packet demo_parse 9 list_message =
        Inr [(''_envelope'', JObj []), (''_received_at'', JInt 9), (''timestamp'', JInt 9)]
    \<and> handle_packet demo_parse 9 Uas list_message two_subscribers = Inr s'
    \<and> 2 \<in> set (sse_subscribers s' Uas)
    \<and> items (heap s' 2) =
        [JObj [(''_envelope'', JObj []), (''_received_at'', JInt 9), (''timestamp'', JInt 9)]]
    \<and> items (packet_queues s' Uas) =
        [JObj [(''_envelope'', JObj []), (''_received_at'', JInt 9), (''timestamp'', JInt 9)]]
    \<and> handle_response 9 list_message two_subscribers = Inr s''
    \<and> 1 \<in> set (response_sse_subscribers s'')
    \<and> items (heap s'' 1) = [JObj [(''_received_at'', JInt 9)]]"
proof -
  have a: "\<forall>d. msg_value list_message \<noteq> JObj d" by (simp add: list_message_def)
  have b: "distinct (sse_subscribers two_subscribers Uas)"
    "distinct (response_sse_subscribers two_subscribers)"
    by (simp_all add: two_subscribers_def)
  have c: "maxsize (packet_queues two_subscribers Uas) = MAX_QUEUE_SIZE"
    "length (items (packet_queues two_subscribers Uas)) \<le> MAX_QUEUE_SIZE"
    by (simp_all add: two_subscribers_def init_state_def new_queue_def)
  have d: "\<forall>r a. pending_responses two_subscribers r = Some a \<longrightarrow>
             a \<notin> set (response_sse_subscribers two_subscribers)"
    by (simp add: two_subscribers_def init_state_def)
  have e: "build_packet demo_parse 9 list_message =
        Inr [(''_envelope'', JObj []), (''_received_at'', JInt 9), (''timestamp'', JInt 9)]"
    by (simp add: build_packet_def merge_headers_def parse_packet_headers_def value_dict_def
        normalise_timestamp_def str_dict_def list_message_def)
  have f: "sse_subscribers two_subscribers Uas = [2]" "response_sse_subscribers two_subscribers = [0, 1]"
    "\<not> full (heap two_subscribers 2)" "\<not> full (heap two_subscribers 1)"
    "items (heap two_subscribers 2) = []" "items (heap two_subscribers 1) = []"
    "items (packet_queues two_subscribers Uas) = []"
    by (simp_all add: two_subscribers_def init_state_def new_queue_def full_def)
  from non_object_value_is_substituted[OF a b c d, of demo_parse 9]
  show ?thesis
    using e f by (auto simp: last_n_def MAX_QUEUE_SIZE_def)
qed

section \<open>The command endpoint\<close>

lemma register_valid:
  assumes "get_default d ''target'' (JStr ''uas'') = JStr t" "t \<in> set [''uas'', ''uac'', ''*'']"
    and "get_default d ''command'' (JStr ''task_list'') = JStr c" "c \<in> set VALID_COMMANDS"
  shows "api_command_register (JObj d) rid s =
     Inr (Inr \<lparr>fr_target = t, fr_wait = truthy (get_default d ''wait'' (JBool True)),
               fr_request_id = rid, fr_queue = next_addr s\<rparr>,
          (if truthy (get_default d ''wait'' (JBool True)) \<and> t \<noteq> ''*''
           then s\<lparr>heap := (heap s)(next_addr s := new_queue 1), next_addr := Suc (next_addr s),
                  pending_responses := (pending_responses s)(rid \<mapsto> next_addr s)\<rparr>
           else s\<lparr>heap := (heap s)(next_addr s := new_queue 1), next_addr := Suc (next_addr s)\<rparr>))"
  using assms by (simp add: api_command_register_def Let_def)

lemma register_cases:
  "api_command_register body rid s = Inl AttributeError
   \<or> api_command_register body rid s = Inl TypeError
   \<or> (\<exists>r. api_command_register body rid s = Inr (Inl r, s))
   \<or> (\<exists>d t c. body = JObj d
        \<and> get_default d ''target'' (JStr ''uas'') = JStr t \<and> t \<in> set [''uas'', ''uac'', ''*'']
        \<and> get_default d ''command'' (JStr ''task_list'') = JStr c \<and> c \<in> set VALID_COMMANDS)"
proof (cases body)
  case (JObj d)
  show ?thesis
  proof (cases "get_default d ''target'' (JStr ''uas'')")
    case (JStr t)
    show ?thesis
    proof (cases "t \<in> set [''uas'', ''uac'', ''*'']")
      case True
      show ?thesis
        by (cases "get_default d ''command'' (JStr ''task_list'')")
          (use JObj JStr True in \<open>simp_all add: api_command_register_def Let_def\<close>)
    next
      case False
      then show ?thesis using JObj JStr by (simp add: api_command_register_def Let_def)
    qed
  qed (use JObj in \<open>simp_all add: api_command_register_def Let_def\<close>)
qed (simp_all add: api_command_register_def)

lemma register_pending:
  assumes "api_command_register body rid s = Inr (x, s1)"
  shows "pending_responses s1 = pending_responses s
         \<or> (\<exists>d f. body = JObj d \<and> x = Inr f \<and> fr_wait f \<and> fr_target f \<noteq> ''*''
               \<and> truthy (get_default d ''wait'' (JBool True))
               \<and> get_default d ''target'' (JStr ''uas'') = JStr (fr_target f)
               \<and> fr_request_id f = rid
               \<and> pending_responses s1 = (pending_responses s)(rid \<mapsto> fr_queue f))"
  using register_cases[of body rid s]
proof (elim disjE exE conjE)
  fix d t c
  assume v: "body = JObj d" "get_default d ''target'' (JStr ''uas'') = JStr t"
    "t \<in> set [''uas'', ''uac'', ''*'']"
    "get_default d ''command'' (JStr ''task_list'') = JStr c" "c \<in> set VALID_COMMANDS"
  show ?thesis
    using assms v(1,2) unfolding v(1) register_valid[OF v(2-5)]
    by (auto split: if_splits)
qed (use assms in auto)

lemma register_frame:
  assumes "api_command_register (JObj d) rid s = Inr (Inr f, s1)"
  shows "fr_request_id f = rid \<and> fr_wait f = truthy (get_default d ''wait'' (JBool True))
       \<and> get_default d ''target'' (JStr ''uas'') = JStr (fr_target f)"
  using register_cases[of "JObj d" rid s]
proof (elim disjE exE conjE)
  fix d' t c
  assume v: "JObj d = JObj d'" "get_default d' ''target'' (JStr ''uas'') = JStr t"
    "t \<in> set [''uas'', ''uac'', ''*'']"
    "get_default d' ''command'' (JStr ''task_list'') = JStr c" "c \<in> set VALID_COMMANDS"
  then have d: "d' = d" by simp
  show ?thesis
    using assms v(2) unfolding register_valid[OF v(2-5)[unfolded d]] d
    by (auto split: if_splits)
qed (use assms in auto)

lemma send_no_wait:
  assumes nw: "\<not> truthy (get_default d ''wait'' (JBool True))
               \<or> get_default d ''target'' (JStr ''uas'') = JStr ''*''"
    and send: "api_command_send (JObj d) rid pub s = Inr (r, f, s')"
  shows "r \<noteq> None"
    and "\<forall>k a. pending_responses s' k = Some a \<longrightarrow> pending_responses s k = Some a"
    and "pub = None \<longrightarrow> pending_responses s' = pending_responses s"
proof -
  from send obtain x s1 where reg: "api_command_register (JObj d) rid s = Inr (x, s1)"
    by (auto simp: api_command_send_def split: sum.splits)
  have p1: "pending_responses s1 = pending_responses s"
    using register_pending[OF reg] nw by auto
  show "r \<noteq> None"
  proof (cases x)
    case (Inl a)
    then show ?thesis using send reg by (auto simp: api_command_send_def)
  next
    case (Inr fr)
    have "\<not> fr_wait fr \<or> fr_target fr = ''*''"
      using register_frame[of d rid s fr s1] reg Inr nw by auto
    then show ?thesis using send reg Inr
      by (auto simp: api_command_send_def api_command_publish_def split: option.splits)
  qed
  show "\<forall>k a. pending_responses s' k = Some a \<longrightarrow> pending_responses s k = Some a"
    using send reg p1
    by (cases x) (auto simp: api_command_send_def api_command_publish_def
        split: option.splits if_splits)
  show "pub = None \<longrightarrow> pending_responses s' = pending_responses s"
    using send reg p1
    by (cases x) (auto simp: api_command_send_def api_command_publish_def
        split: option.splits if_splits)
qed

lemma send_no_wait_valid:
  assumes nw: "\<not> truthy (get_default d ''wait'' (JBool True))
               \<or> get_default d ''target'' (JStr ''uas'') = JStr ''*''"
    and "get_default d ''target'' (JStr ''uas'') = JStr t" "t \<in> set [''uas'', ''uac'', ''*'']"
    and "get_default d ''command'' (JStr ''task_list'') = JStr c" "c \<in> set VALID_COMMANDS"
  shows "\<exists>f s'. api_command_send (JObj d) rid None s = Inr (Some (Sent rid), Some f, s')
           \<and> pending_responses s' = pending_responses s"
  using nw assms(2) unfolding api_command_send_def register_valid[OF assms(2-5)]
  by (auto simp: api_command_publish_def)

lemma register_invalid_target:
  assumes "\<not> (\<exists>t. get_default d ''target'' (JStr ''uas'') = JStr t \<and> t \<in> set [''uas'', ''uac'', ''*''])"
  shows "api_command_register (JObj d) rid s =
           Inr (Inl (InvalidTarget (get_default d ''target'' (JStr ''uas''))), s)"
  using assms
  by (cases "get_default d ''target'' (JStr ''uas'')")
     (simp_all add: api_command_register_def Let_def)

lemma register_unknown_command:
  assumes "get_default d ''target'' (JStr ''uas'') = JStr t" "t \<in> set [''uas'', ''uac'', ''*'']"
    and "hashable (get_default d ''command'' (JStr ''task_list''))"
    and "\<not> (\<exists>c. get_default d ''command'' (JStr ''task_list'') = JStr c \<and> c \<in> set VALID_COMMANDS)"
  shows "api_command_register (JObj d) rid s =
           Inr (Inl (UnknownCommand (get_default d ''command'' (JStr ''task_list''))), s)"
  using assms
  by (cases "get_default d ''command'' (JStr ''task_list'')")
     (simp_all add: api_command_register_def Let_def)

lemma register_unhashable_command:
  assumes "get_default d ''target'' (JStr ''uas'') = JStr t" "t \<in> set [''uas'', ''uac'', ''*'']"
    and "\<not> hashable (get_default d ''command'' (JStr ''task_list''))"
  shows "api_command_register (JObj d) rid s = Inl TypeError"
  using assms
  by (cases "get_default d ''command'' (JStr ''task_list'')")
     (simp_all add: api_command_register_def Let_def)

lemma send_no_wait_failed:
  assumes nw: "\<not> truthy (get_default d ''wait'' (JBool True))
               \<or> get_default d ''target'' (JStr ''uas'') = JStr ''*''"
    and "get_default d ''target'' (JStr ''uas'') = JStr t" "t \<in> set [''uas'', ''uac'', ''*'']"
    and "get_default d ''command'' (JStr ''task_list'') = JStr c" "c \<in> set VALID_COMMANDS"
  shows "\<exists>f s'. api_command_send (JObj d) rid (Some e) s = Inr (Some (DispatchError e), Some f, s')
           \<and> pending_responses s' = (pending_responses s)(rid := None)"
  using nw assms(2) unfolding api_command_send_def register_valid[OF assms(2-5)]
  by (auto simp: api_command_publish_def)

text \<open>
  Claim C4, as amended. A command request whose body is an object with a falsy
  \<^verbatim>\<open>wait\<close> or with the wildcard target never registers a waiter and never waits for a
  response: whenever the endpoint returns, it returns a reply, and every entry of the
  pending map was there before (the map is the same when the publish did not fail). What
  it returns is settled by the request and the publish:
  when the target and the command pass validation and the publish does not fail, the reply
  is \<^verbatim>\<open>{"ok": true, "request_id": ...}\<close> with the generated id and status 200;
  when they pass validation and the publish fails, the reply is the dispatch error, status
  500, without a request id;
  when the target is not one of the three names, the reply is the validation error, status
  400, without a request id, and the state is untouched;
  when the target is valid and the command is hashable but not in the allow-list, the same
  with the other validation error;
  when the target is valid and the command is a list or an object, the membership test
  raises \<^verbatim>\<open>TypeError\<close>: the handler has no reply of its own, and the shared state is as it
  was.
\<close>

theorem fire_and_forget_never_registers:
  assumes "\<not> truthy (get_default d ''wait'' (JBool True))
           \<or> get_default d ''target'' (JStr ''uas'') = JStr ''*''"
  shows "(\<forall>r f s'. api_command_send (JObj d) rid pub s = Inr (r, f, s') \<longrightarrow>
            r \<noteq> None
            \<and> (\<forall>k a. pending_responses s' k = Some a \<longrightarrow> pending_responses s k = Some a)
            \<and> (pub = None \<longrightarrow> pending_responses s' = pending_responses s))
       \<and> (get_default d ''target'' (JStr ''uas'') = JStr t \<and> t \<in> set [''uas'', ''uac'', ''*'']
           \<and> get_default d ''command'' (JStr ''task_list'') = JStr c \<and> c \<in> set VALID_COMMANDS
           \<longrightarrow> (\<exists>f s'. api_command_send (JObj d) rid None s = Inr (Some (Sent rid), Some f, s')
                   \<and> pending_responses s' = pending_responses s
                   \<and> reply_request_id (Sent rid) = Some rid
                   \<and> status (Sent rid) = 200)
             \<and> (\<exists>f s'. api_command_send (JObj d) rid (Some e) s =
                          Inr (Some (DispatchError e), Some f, s')
                   \<and> pending_responses s' = (pending_responses s)(rid := None)
                   \<and> reply_request_id (DispatchError e) = None
                   \<and> status (DispatchError e) = 500))
       \<and> (\<not> (\<exists>t. get_default d ''target'' (JStr ''uas'') = JStr t \<and> t \<in> set [''uas'', ''uac'', ''*''])
           \<longrightarrow> api_command_send (JObj d) rid pub s =
                 Inr (Some (InvalidTarget (get_default d ''target'' (JStr ''uas''))), None, s)
               \<and> reply_request_id (InvalidTarget (get_default d ''target'' (JStr ''uas''))) = None
               \<and> status (InvalidTarget (get_default d ''target'' (JStr ''uas''))) = 400)
       \<and> (get_default d ''target'' (JStr ''uas'') = JStr t \<and> t \<in> set [''uas'', ''uac'', ''*'']
           \<and> hashable (get_default d ''command'' (JStr ''task_list''))
           \<and> \<not> (\<exists>c. get_default d ''command'' (JStr ''task_list'') = JStr c \<and> c \<in> set VALID_COMMANDS)
           \<longrightarrow> api_command_send (JObj d) rid pub s =
                 Inr (Some (UnknownCommand (get_default d ''command'' (JStr ''task_list''))), None, s)
               \<and> reply_request_id (UnknownCommand (get_default d ''command'' (JStr ''task_list''))) = None
               \<and> status (UnknownCommand (get_default d ''command'' (JStr ''task_list''))) = 400)
       \<and> (get_default d ''target'' (JStr ''uas'') = JStr t \<and> t \<in> set [''uas'', ''uac'', ''*'']
           \<and> \<not> hashable (get_default d ''command'' (JStr ''task_list''))
           \<longrightarrow> api_command_send (JObj d) rid pub s = Inl TypeError
               \<and> (\<forall>parse sys. shared sys = s \<longrightarrow>
                     exec parse (Register (JObj d) rid) sys = Some sys))"
proof -
  have a: "\<forall>r f s'. api_command_send (JObj d) rid pub s = Inr (r, f, s') \<longrightarrow>
            r \<noteq> None
            \<and> (\<forall>k a. pending_responses s' k = Some a \<longrightarrow> pending_responses s k = Some a)
            \<and> (pub = None \<longrightarrow> pending_responses s' = pending_responses s)"
    using send_no_wait[OF assms, of rid pub s] by blast
  have b: "get_default d ''target'' (JStr ''uas'') = JStr t \<and> t \<in> set [''uas'', ''uac'', ''*'']
           \<and> get_default d ''command'' (JStr ''task_list'') = JStr c \<and> c \<in> set VALID_COMMANDS
           \<longrightarrow> (\<exists>f s'. api_command_send (JObj d) rid None s = Inr (Some (Sent rid), Some f, s')
                   \<and> pending_responses s' = pending_responses s
                   \<and> reply_request_id (Sent rid) = Some rid
                   \<and> status (Sent rid) = 200)
             \<and> (\<exists>f s'. api_command_send (JObj d) rid (Some e) s =
                          Inr (Some (DispatchError e), Some f, s')
                   \<and> pending_responses s' = (pending_responses s)(rid := None)
                   \<and> reply_request_id (DispatchError e) = None
                   \<and> status (DispatchError e) = 500)"
    using send_no_wait_valid[OF assms, of t c rid s] send_no_wait_failed[OF assms, of t c rid e s]
    by simp
  have c: "\<not> (\<exists>t. get_default d ''target'' (JStr ''uas'') = JStr t \<and> t \<in> set [''uas'', ''uac'', ''*''])
           \<longrightarrow> api_command_send (JObj d) rid pub s =
                 Inr (Some (InvalidTarget (get_default d ''target'' (JStr ''uas''))), None, s)
               \<and> reply_request_id (InvalidTarget (get_default d ''target'' (JStr ''uas''))) = None
               \<and> status (InvalidTarget (get_default d ''target'' (JStr ''uas''))) = 400"
  proof
    assume h: "\<not> (\<exists>t. get_default d ''target'' (JStr ''uas'') = JStr t \<and> t \<in> set [''uas'', ''uac'', ''*''])"
    show "api_command_send (JObj d) rid pub s =
                 Inr (Some (InvalidTarget (get_default d ''target'' (JStr ''uas''))), None, s)
               \<and> reply_request_id (InvalidTarget (get_default d ''target'' (JStr ''uas''))) = None
               \<and> status (InvalidTarget (get_default d ''target'' (JStr ''uas''))) = 400"
      unfolding api_command_send_def register_invalid_target[OF h] by simp
  qed
  have d: "get_default d ''target'' (JStr ''uas'') = JStr t \<and> t \<in> set [''uas'', ''uac'', ''*'']
           \<and> hashable (get_default d ''command'' (JStr ''task_list''))
           \<and> \<not> (\<exists>c. get_default d ''command'' (JStr ''task_list'') = JStr c \<and> c \<in> set VALID_COMMANDS)
           \<longrightarrow> api_command_send (JObj d) rid pub s =
                 Inr (Some (UnknownCommand (get_default d ''command'' (JStr ''task_list''))), None, s)
               \<and> reply_request_id (UnknownCommand (get_default d ''command'' (JStr ''task_list''))) = None
               \<and> status (UnknownCommand (get_default d ''command'' (JStr ''task_list''))) = 400"
  proof (intro impI, elim conjE)
    assume h: "get_default d ''target'' (JStr ''uas'') = JStr t" "t \<in> set [''uas'', ''uac'', ''*'']"
      "hashable (get_default d ''command'' (JStr ''task_list''))"
      "\<not> (\<exists>c. get_default d ''command'' (JStr ''task_list'') = JStr c \<and> c \<in> set VALID_COMMANDS)"
    show "api_command_send (JObj d) rid pub s =
                 Inr (Some (UnknownCommand (get_default d ''command'' (JStr ''task_list''))), None, s)
               \<and> reply_request_id (UnknownCommand (get_default d ''command'' (JStr ''task_list''))) = None
               \<and> status (UnknownCommand (get_default d ''command'' (JStr ''task_list''))) = 400"
      unfolding api_command_send_def register_unknown_command[OF h] by simp
  qed
  have e: "get_default d ''target'' (JStr ''uas'') = JStr t \<and> t \<in> set [''uas'', ''uac'', ''*'']
           \<and> \<not> hashable (get_default d ''command'' (JStr ''task_list''))
           \<longrightarrow> api_command_send (JObj d) rid pub s = Inl TypeError
               \<and> (\<forall>parse sys. shared sys = s \<longrightarrow>
                     exec parse (Register (JObj d) rid) sys = Some sys)"
  proof (intro impI, elim conjE)
    assume h: "get_default d ''target'' (JStr ''uas'') = JStr t" "t \<in> set [''uas'', ''uac'', ''*'']"
      "\<not> hashable (get_default d ''command'' (JStr ''task_list''))"
    show "api_command_send (JObj d) rid pub s = Inl TypeError
               \<and> (\<forall>parse sys. shared sys = s \<longrightarrow>
                     exec parse (Register (JObj d) rid) sys = Some sys)"
      using register_unhashable_command[OF h]
      by (simp add: api_command_send_def)
  qed
  from a b c d e show ?thesis by (intro conjI)
qed


theorem fire_and_forget_never_registers_witness:
  "(\<exists>f s'. api_command_send forget_body ''id-1'' None one_waiter =
             Inr (Some (Sent ''id-1''), Some f, s')
         \<and> pending_responses s' = pending_responses one_waiter
         \<and> reply_request_id (Sent ''id-1'') = Some ''id-1'')
   \<and> api_command_send unhashable_body ''id-1'' None one_waiter = Inl TypeError
   \<and> exec (\<lambda>x. None) (Register unhashable_body ''id-1'') init_system = Some init_system"
proof -
  let ?d = "[(''target'', JStr ''uac''), (''command'', JStr ''task_list''), (''wait'', JBool False)]"
  let ?u = "[(''command'', JList []), (''wait'', JBool False)]"
  have a: "\<not> truthy (get_default ?d ''wait'' (JBool True))
           \<or> get_default ?d ''target'' (JStr ''uas'') = JStr ''*''"
    by (simp add: get_default_def)
  have b: "get_default ?d ''target'' (JStr ''uas'') = JStr ''uac'' \<and> ''uac'' \<in> set [''uas'', ''uac'', ''*'']
           \<and> get_default ?d ''command'' (JStr ''task_list'') = JStr ''task_list''
           \<and> ''task_list'' \<in> set VALID_COMMANDS"
    by (simp add: get_default_def VALID_COMMANDS_def)
  have a': "\<not> truthy (get_default ?u ''wait'' (JBool True))
           \<or> get_default ?u ''target'' (JStr ''uas'') = JStr ''*''"
    by (simp add: get_default_def)
  have b': "get_default ?u ''target'' (JStr ''uas'') = JStr ''uas'' \<and> ''uas'' \<in> set [''uas'', ''uac'', ''*'']
           \<and> \<not> hashable (get_default ?u ''command'' (JStr ''task_list''))"
    by (simp add: get_default_def)
  have sh: "shared init_system = init_state" by (simp add: init_system_def)
  have one: "\<exists>f s'. api_command_send forget_body ''id-1'' None one_waiter =
             Inr (Some (Sent ''id-1''), Some f, s')
         \<and> pending_responses s' = pending_responses one_waiter
         \<and> reply_request_id (Sent ''id-1'') = Some ''id-1''"
    using fire_and_forget_never_registers[OF a, where rid = "''id-1''" and pub = None
        and s = one_waiter and t = "''uac''" and c = "''task_list''"] b
    by (auto simp: forget_body_def)
  have two: "api_command_send unhashable_body ''id-1'' None one_waiter = Inl TypeError"
    using fire_and_forget_never_registers[OF a', where rid = "''id-1''" and pub = None
        and s = one_waiter and t = "''uas''"] b'
    by (simp add: unhashable_body_def)
  have three: "exec (\<lambda>x. None) (Register unhashable_body ''id-1'') init_system = Some init_system"
    using fire_and_forget_never_registers[OF a', where rid = "''id-1''" and pub = None
        and s = init_state and t = "''uas''"] b' sh
    unfolding unhashable_body_def by blast
  from one two three show ?thesis by (intro conjI)
qed

text \<open>
  A fire-and-forget request whose command is not in the allow-list is answered with
  status 400 and no request id.
\<close>

theorem fire_and_forget_invalid_counterexample:
  "api_command_send unknown_body ''id-1'' None init_state =
     Inr (Some (UnknownCommand (JStr ''reboot'')), None, init_state)
   \<and> reply_request_id (UnknownCommand (JStr ''reboot'')) = None
   \<and> status (UnknownCommand (JStr ''reboot'')) = 400"
  by (simp add: api_command_send_def api_command_register_def unknown_body_def get_default_def
      VALID_COMMANDS_def)


lemma register_waited:
  assumes "truthy (get_default d ''wait'' (JBool True))"
    and "get_default d ''target'' (JStr ''uas'') = JStr t" "t \<in> set [''uas'', ''uac'']"
    and "get_default d ''command'' (JStr ''task_list'') = JStr c" "c \<in> set VALID_COMMANDS"
  shows "api_command_register (JObj d) rid s =
     Inr (Inr \<lparr>fr_target = t, fr_wait = True, fr_request_id = rid, fr_queue = next_addr s\<rparr>,
          s\<lparr>heap := (heap s)(next_addr s := new_queue 1), next_addr := Suc (next_addr s),
            pending_responses := (pending_responses s)(rid \<mapsto> next_addr s)\<rparr>)"
proof -
  have t: "t \<in> set [''uas'', ''uac'', ''*'']" "t \<noteq> ''*''" using assms(3) by auto
  show ?thesis
    unfolding register_valid[OF assms(2) t(1) assms(4,5)] using assms(1) t(2) by simp
qed

text \<open>
  Claim C5. A waited send to \<open>uas\<close> or \<open>uac\<close> with an allowed command, under a request
  id that is not in the pending map (\<^verbatim>\<open>uuid4\<close> gives a new one): the waiter is
  registered under the id, and when the producer raises a \<^verbatim>\<open>KafkaError\<close> the endpoint
  returns the error with status 500 and the pending map is the one before the request.
\<close>

theorem publish_failure_unregisters:
  assumes "truthy (get_default d ''wait'' (JBool True))"
    and "get_default d ''target'' (JStr ''uas'') = JStr t" and "t \<in> set [''uas'', ''uac'']"
    and "get_default d ''command'' (JStr ''task_list'') = JStr c" and "c \<in> set VALID_COMMANDS"
    and "pending_responses s rid = None"
  shows "\<exists>f s1 s'.
           api_command_register (JObj d) rid s = Inr (Inr f, s1)
         \<and> pending_responses s1 rid = Some (fr_queue f)
         \<and> api_command_send (JObj d) rid (Some e) s = Inr (Some (DispatchError e), Some f, s')
         \<and> status (DispatchError e) = 500
         \<and> pending_responses s' = pending_responses s"
proof -
  have "((pending_responses s)(rid \<mapsto> next_addr s))(rid := None) = pending_responses s"
    using assms(6) by (simp add: fun_upd_idem)
  then show ?thesis
    unfolding api_command_send_def register_waited[OF assms(1-5)]
    by (simp add: api_command_publish_def)
qed

theorem publish_failure_unregisters_witness:
  "\<exists>f s'. api_command_send waited_body ''id-2'' (Some ''broker down'') one_waiter =
             Inr (Some (DispatchError ''broker down''), Some f, s')
         \<and> pending_responses s' = pending_responses one_waiter
         \<and> pending_responses one_waiter ''id-2'' = None"
proof -
  let ?d = "[(''target'', JStr ''uas''), (''command'', JStr ''task_create'')]"
  have a: "truthy (get_default ?d ''wait'' (JBool True))"
    "get_default ?d ''target'' (JStr ''uas'') = JStr ''uas''" "''uas'' \<in> set [''uas'', ''uac'']"
    "get_default ?d ''command'' (JStr ''task_list'') = JStr ''task_create''"
    "''task_create'' \<in> set VALID_COMMANDS"
    "pending_responses one_waiter ''id-2'' = None"
    by (simp_all add: get_default_def VALID_COMMANDS_def one_waiter_def init_state_def)
  show ?thesis
    using publish_failure_unregisters[OF a, of "''broker down''"] a(6)
    by (auto simp: waited_body_def)
qed

lemma await_empty:
  assumes "items (heap s (fr_queue f)) = []"
  shows "api_command_await f s =
           (Inr (Timeout (fr_request_id f)),
            s\<lparr>pending_responses := (pending_responses s)(fr_request_id f := None)\<rparr>)"
  using assms
  by (simp add: api_command_await_def await_get_def await_expired_def get_timeout_def
      get_nowait_def)

lemma await_response:
  assumes "items (heap s (fr_queue f)) = JObj d # xs"
  shows "api_command_await f s =
           (Inr (Answered (map_of d ''error'' = None \<or> map_of d ''error'' = Some JNull)
                   (fr_request_id f) d),
            s\<lparr>heap := (heap s)(fr_queue f := (heap s (fr_queue f))\<lparr>items := xs\<rparr>)\<rparr>)"
  using assms
  by (simp add: api_command_await_def await_get_def await_reply_def get_timeout_def
      get_nowait_def)

text \<open>
  Claim C6. A waited send to \<open>uas\<close> or \<open>uac\<close> with an allowed command whose publish
  succeeds does not return: the caller is registered under its request id with an empty
  queue of one place and waits on it with the deadline \<open>RESPONSE_TIMEOUT_S = 30\<close>. When
  the wait ends with the queue still empty, in whatever state the rest of the system is,
  the caller gets the timeout reply (status 504) and the pending map no longer has the
  id. A response taken from the queue, also one that reports an error of the node, gives
  an \<open>Answered\<close> reply with status 200 instead.
\<close>

theorem timeout_removes_waiter:
  assumes "truthy (get_default d ''wait'' (JBool True))"
    and "get_default d ''target'' (JStr ''uas'') = JStr t" and "t \<in> set [''uas'', ''uac'']"
    and "get_default d ''command'' (JStr ''task_list'') = JStr c" and "c \<in> set VALID_COMMANDS"
    and "items (heap s2 (next_addr s)) = []"
  shows "\<exists>f s1 s3.
           api_command_send (JObj d) rid None s = Inr (None, Some f, s1)
         \<and> fr_request_id f = rid \<and> fr_queue f = next_addr s
         \<and> pending_responses s1 rid = Some (fr_queue f)
         \<and> heap s1 (fr_queue f) = new_queue 1
         \<and> api_command_await f s2 = (Inr (Timeout rid), s3)
         \<and> pending_responses s3 = (pending_responses s2)(rid := None)
         \<and> pending_responses s3 rid = None
         \<and> status (Timeout rid) = 504
         \<and> RESPONSE_TIMEOUT_S = 30
         \<and> (\<forall>s4 e xs. items (heap s4 (fr_queue f)) = JObj e # xs \<longrightarrow>
               (\<exists>ok s5. api_command_await f s4 = (Inr (Answered ok rid e), s5)
                  \<and> ok = (map_of e ''error'' = None \<or> map_of e ''error'' = Some JNull)
                  \<and> status (Answered ok rid e) = 200
                  \<and> Answered ok rid e \<noteq> Timeout rid))"
proof -
  let ?f = "\<lparr>fr_target = t, fr_wait = True, fr_request_id = rid, fr_queue = next_addr s\<rparr>"
  have t: "t \<noteq> ''*''" using assms(3) by auto
  have send: "api_command_send (JObj d) rid None s =
     Inr (None, Some ?f,
          s\<lparr>heap := (heap s)(next_addr s := new_queue 1), next_addr := Suc (next_addr s),
            pending_responses := (pending_responses s)(rid \<mapsto> next_addr s)\<rparr>)"
    unfolding api_command_send_def register_waited[OF assms(1-5)]
    using t by (simp add: api_command_publish_def)
  have e: "items (heap s2 (fr_queue ?f)) = []" using assms(6) by simp
  have aw: "\<forall>s4 e xs. items (heap s4 (fr_queue ?f)) = JObj e # xs \<longrightarrow>
               (\<exists>ok s5. api_command_await ?f s4 = (Inr (Answered ok rid e), s5)
                  \<and> ok = (map_of e ''error'' = None \<or> map_of e ''error'' = Some JNull)
                  \<and> status (Answered ok rid e) = 200
                  \<and> Answered ok rid e \<noteq> Timeout rid)"
    using await_response[of _ ?f] by simp
  show ?thesis
    using send await_empty[OF e] aw
    by (simp add: RESPONSE_TIMEOUT_S_def)
qed


theorem timeout_removes_waiter_witness:
  "\<exists>f s1 s3.
      api_command_send waited_body ''id-3'' None init_state = Inr (None, Some f, s1)
    \<and> pending_responses s1 ''id-3'' = Some (fr_queue f)
    \<and> items (heap s1 (fr_queue f)) = []
    \<and> api_command_await f s1 = (Inr (Timeout ''id-3''), s3)
    \<and> pending_responses s3 ''id-3'' = None"
proof -
  let ?d = "[(''target'', JStr ''uas''), (''command'', JStr ''task_create'')]"
  let ?s1 = "init_state\<lparr>heap := (heap init_state)(next_addr init_state := new_queue 1),
               next_addr := Suc (next_addr init_state),
               pending_responses := (pending_responses init_state)(''id-3'' \<mapsto> next_addr init_state)\<rparr>"
  have a: "truthy (get_default ?d ''wait'' (JBool True))"
    "get_default ?d ''target'' (JStr ''uas'') = JStr ''uas''" "''uas'' \<in> set [''uas'', ''uac'']"
    "get_default ?d ''command'' (JStr ''task_list'') = JStr ''task_create''"
    "''task_create'' \<in> set VALID_COMMANDS"
    "items (heap ?s1 (next_addr init_state)) = []"
    by (simp_all add: get_default_def VALID_COMMANDS_def new_queue_def)
  have s: "api_command_send waited_body ''id-3'' None init_state =
      Inr (None, Some \<lparr>fr_target = ''uas'', fr_wait = True, fr_request_id = ''id-3'',
                        fr_queue = next_addr init_state\<rparr>, ?s1)"
    by (simp add: waited_body_def api_command_send_def api_command_register_def
        api_command_publish_def get_default_def VALID_COMMANDS_def Let_def)
  show ?thesis
    using timeout_removes_waiter[OF a, of "''id-3''"] s a(6)
    by (auto simp: waited_body_def)
qed

section \<open>What holds in every state of the system\<close>

lemma subscribers_upd [simp]:
  "subscribers feed (s\<lparr>heap := h\<rparr>) = subscribers feed s"
  "subscribers feed (s\<lparr>pending_responses := p\<rparr>) = subscribers feed s"
  "subscribers feed (s\<lparr>next_addr := n\<rparr>) = subscribers feed s"
  "subscribers feed (s\<lparr>packet_queues := pq\<rparr>) = subscribers feed s"
  by (simp_all add: subscribers_def split: option.splits)

lemma subscribers_set [simp]:
  "subscribers feed (set_subscribers feed' l s) = (if feed = feed' then l else subscribers feed s)"
  by (auto simp: subscribers_def set_subscribers_def split: option.splits)

lemma set_subscribers_fields [simp]:
  "heap (set_subscribers feed l s) = heap s"
  "next_addr (set_subscribers feed l s) = next_addr s"
  "pending_responses (set_subscribers feed l s) = pending_responses s"
  "packet_queues (set_subscribers feed l s) = packet_queues s"
  by (simp_all add: set_subscribers_def split: option.splits)

lemma state_inv_init: "state_inv init_state None []"
  by (simp add: state_inv_def init_state_def subscribers_def new_queue_def MAX_QUEUE_SIZE_def
      split: option.splits)

lemma inv_unregister:
  assumes "state_inv s found pu"
  shows "state_inv (s\<lparr>pending_responses := (pending_responses s)(r := None)\<rparr>) found pu"
  using assms
  by (simp add: state_inv_def quiet_def)

lemma state_inv_frame:
  assumes inv: "state_inv s found pu"
    and same: "pending_responses s' = pending_responses s" "next_addr s' = next_addr s"
      "packet_queues s' = packet_queues s"
    and subs: "\<And>feed. distinct (subscribers feed s')
                 \<and> set (subscribers feed s') \<subseteq> set (subscribers feed s)"
    and heap: "\<And>b. quiet s pu b \<Longrightarrow> heap s' b = heap s b"
  shows "state_inv s' found pu"
proof -
  have q: "quiet s' pu b" if "quiet s pu b" for b
    using that heap[OF that] same(2) subs by (auto simp: quiet_def)
  have lt: "a < next_addr s'" if "a \<in> set (subscribers feed s')" for a feed
    using that subs[of feed] inv same(2) by (auto simp: state_inv_def)
  show ?thesis
    unfolding state_inv_def
  proof (intro conjI allI impI ballI)
    fix r a assume "pending_responses s' r = Some a"
    then show "quiet s' pu a" using inv q by (simp add: same state_inv_def)
  next
    fix a assume "found = Some a"
    then show "quiet s' pu a" using inv q by (simp add: state_inv_def)
  next
    fix a r assume "found = Some a"
    then show "pending_responses s' r \<noteq> Some a" using inv by (simp add: same state_inv_def)
  next
    fix r r' a assume "pending_responses s' r = Some a \<and> pending_responses s' r' = Some a"
    then show "r = r'" using inv unfolding same state_inv_def by blast
  next
    fix feed show "distinct (subscribers feed s')" using subs by simp
  next
    fix feed a assume "a \<in> set (subscribers feed s')"
    then show "a < next_addr s'" by (rule lt)
  next
    show "distinct pu" using inv by (simp add: state_inv_def)
  next
    fix a assume "a \<in> set pu"
    then show "a < next_addr s'" using inv by (simp add: same state_inv_def)
  next
    fix ch show "maxsize (packet_queues s' ch) = MAX_QUEUE_SIZE"
      using inv by (simp add: same state_inv_def)
  next
    fix ch show "length (items (packet_queues s' ch)) \<le> MAX_QUEUE_SIZE"
      using inv by (simp add: same state_inv_def)
  qed
qed

lemma inv_take:
  assumes "state_inv s found pu" and "items (heap s a) = x # xs"
  shows "state_inv (s\<lparr>heap := (heap s)(a := (heap s a)\<lparr>items := xs\<rparr>)\<rparr>) found pu"
proof (rule state_inv_frame[OF assms(1)])
  fix b assume "quiet s pu b"
  then have "b \<noteq> a" using assms(2) by (auto simp: quiet_def new_queue_def)
  then show "heap (s\<lparr>heap := (heap s)(a := (heap s a)\<lparr>items := xs\<rparr>)\<rparr>) b = heap s b" by simp
next
  fix feed
  show "distinct (subscribers feed (s\<lparr>heap := (heap s)(a := (heap s a)\<lparr>items := xs\<rparr>)\<rparr>))
      \<and> set (subscribers feed (s\<lparr>heap := (heap s)(a := (heap s a)\<lparr>items := xs\<rparr>)\<rparr>))
          \<subseteq> set (subscribers feed s)"
    using assms(1) by (simp add: state_inv_def)
qed simp_all

lemma publish_eq:
  assumes "distinct (subscribers feed s)"
  shows "publish feed item s =
      set_subscribers feed (filter (\<lambda>q. \<not> full (heap s q)) (subscribers feed s))
        (s\<lparr>heap := (\<lambda>q. if q \<in> set (subscribers feed s) \<and> \<not> full (heap s q)
                then (heap s q)\<lparr>items := items (heap s q) @ [item]\<rparr> else heap s q)\<rparr>)"
  by (simp only: publish_def sse_push_distinct[OF assms] prod.case)

lemma inv_publish:
  assumes "state_inv s found pu"
  shows "state_inv (publish feed item s) found pu"
proof (rule state_inv_frame[OF assms])
  have d: "distinct (subscribers feed' s)" for feed' using assms by (simp add: state_inv_def)
  fix b assume "quiet s pu b"
  then have "b \<notin> set (subscribers feed s)" by (simp add: quiet_def)
  then show "heap (publish feed item s) b = heap s b"
    unfolding publish_eq[OF d] by simp
next
  have d: "distinct (subscribers feed' s)" for feed' using assms by (simp add: state_inv_def)
  fix feed'
  show "distinct (subscribers feed' (publish feed item s))
      \<and> set (subscribers feed' (publish feed item s)) \<subseteq> set (subscribers feed' s)"
    unfolding publish_eq[OF d] using d by auto
qed simp_all

lemma inv_close:
  assumes "state_inv s found pu"
  shows "state_inv (stream_close feed a s) found pu"
proof (rule state_inv_frame[OF assms])
  have d: "distinct (subscribers feed' s)" for feed' using assms by (simp add: state_inv_def)
  fix feed'
  show "distinct (subscribers feed' (stream_close feed a s))
      \<and> set (subscribers feed' (stream_close feed a s)) \<subseteq> set (subscribers feed' s)"
    using d set_remove1_subset[of a "subscribers feed s"] by (auto simp: stream_close_def)
qed (simp_all add: stream_close_def)


lemma inv_alloc:
  assumes "state_inv s found pu"
  shows "state_inv (s\<lparr>heap := (heap s)(next_addr s := q), next_addr := Suc (next_addr s)\<rparr>) found pu"
proof -
  let ?s = "s\<lparr>heap := (heap s)(next_addr s := q), next_addr := Suc (next_addr s)\<rparr>"
  have q: "quiet ?s pu b" if "quiet s pu b" for b
    using that by (auto simp: quiet_def)
  show ?thesis
    using assms q unfolding state_inv_def
    by (simp add: less_Suc_eq)
qed

lemma inv_register:
  assumes "state_inv s found pu"
  shows "state_inv (s\<lparr>heap := (heap s)(next_addr s := new_queue 1), next_addr := Suc (next_addr s),
                      pending_responses := (pending_responses s)(rid \<mapsto> next_addr s)\<rparr>) found pu"
proof -
  define s1 where "s1 = s\<lparr>heap := (heap s)(next_addr s := new_queue 1), next_addr := Suc (next_addr s)\<rparr>"
  define s2 where "s2 = s1\<lparr>pending_responses := (pending_responses s)(rid \<mapsto> next_addr s)\<rparr>"
  have i1: "state_inv s1 found pu" unfolding s1_def by (rule inv_alloc[OF assms])
  have f: "heap s2 = heap s1" "next_addr s2 = next_addr s1" "packet_queues s2 = packet_queues s1"
    "\<And>feed. subscribers feed s2 = subscribers feed s1"
    "pending_responses s2 = (pending_responses s1)(rid \<mapsto> next_addr s)"
    "next_addr s1 = Suc (next_addr s)" "heap s1 (next_addr s) = new_queue 1"
    "\<And>feed. subscribers feed s1 = subscribers feed s"
    by (simp_all add: s2_def s1_def)
  have q: "quiet s2 pu b = quiet s1 pu b" for b by (simp add: quiet_def f(1,2,4))
  have old: "a < next_addr s" if "pending_responses s1 r = Some a" for r a
    using that assms by (auto simp: s1_def state_inv_def quiet_def)
  have fo: "a < next_addr s" if "found = Some a" for a
    using that assms by (auto simp: state_inv_def quiet_def)
  have qn: "quiet s1 pu (next_addr s)"
    using assms by (auto simp: quiet_def state_inv_def f(6,7,8))
  have "state_inv s2 found pu"
    unfolding state_inv_def q f(2,3,4,5)
  proof (intro conjI allI impI ballI)
    fix r a assume p: "((pending_responses s1)(rid \<mapsto> next_addr s)) r = Some a"
    show "quiet s1 pu a"
    proof (cases "r = rid")
      case True
      then show ?thesis using p qn by simp
    next
      case False
      then show ?thesis using p i1 by (simp add: state_inv_def)
    qed
  next
    fix a assume "found = Some a"
    then show "quiet s1 pu a" using i1 by (simp add: state_inv_def)
  next
    fix a r assume f: "found = Some a"
    then have "pending_responses s1 r \<noteq> Some a" using i1 by (simp add: state_inv_def)
    then show "((pending_responses s1)(rid \<mapsto> next_addr s)) r \<noteq> Some a" using fo[OF f] by auto
  next
    fix r r' a
    assume p: "((pending_responses s1)(rid \<mapsto> next_addr s)) r = Some a
             \<and> ((pending_responses s1)(rid \<mapsto> next_addr s)) r' = Some a"
    have inj: "\<And>r r' a. pending_responses s1 r = Some a \<Longrightarrow> pending_responses s1 r' = Some a \<Longrightarrow> r = r'"
      using i1 unfolding state_inv_def by blast
    show "r = r'"
    proof (cases "r = rid")
      case True
      then have a: "a = next_addr s" using p by simp
      show ?thesis
      proof (cases "r' = rid")
        case True
        then show ?thesis using \<open>r = rid\<close> by simp
      next
        case False
        then have "pending_responses s1 r' = Some a" using p by simp
        from old[OF this] a show ?thesis by simp
      qed
    next
      case False
      then have 1: "pending_responses s1 r = Some a" using p by simp
      show ?thesis
      proof (cases "r' = rid")
        case True
        then have "a = next_addr s" using p by simp
        with old[OF 1] show ?thesis by simp
      next
        case False
        then have "pending_responses s1 r' = Some a" using p by simp
        with 1 show ?thesis by (rule inj)
      qed
    qed
  next
    fix feed show "distinct (subscribers feed s1)" using i1 by (simp add: state_inv_def)
  next
    fix feed a assume "a \<in> set (subscribers feed s1)"
    then show "a < next_addr s1" using i1 by (simp add: state_inv_def)
  next
    show "distinct pu" using assms by (simp add: state_inv_def)
  next
    fix a assume "a \<in> set pu"
    then show "a < next_addr s1" using i1 by (simp add: state_inv_def)
  next
    fix ch show "maxsize (packet_queues s1 ch) = MAX_QUEUE_SIZE"
      using i1 by (simp add: state_inv_def)
  next
    fix ch show "length (items (packet_queues s1 ch)) \<le> MAX_QUEUE_SIZE"
      using i1 by (simp add: state_inv_def)
  qed
  then show ?thesis unfolding s2_def s1_def by simp
qed


lemma inv_open:
  assumes "state_inv s found pu"
  shows "state_inv (snd (stream_open feed s)) found pu"
proof -
  define n where "n = (case feed of None \<Rightarrow> 100 | Some _ \<Rightarrow> (200::nat))"
  define s1 where "s1 = s\<lparr>heap := (heap s)(next_addr s := new_queue n), next_addr := Suc (next_addr s)\<rparr>"
  define s2 where "s2 = set_subscribers feed (subscribers feed s1 @ [next_addr s]) s1"
  have e: "snd (stream_open feed s) = s2"
    by (simp add: stream_open_def Let_def s2_def s1_def n_def)
  have i1: "state_inv s1 found pu" unfolding s1_def by (rule inv_alloc[OF assms])
  have f: "heap s2 = heap s1" "next_addr s2 = next_addr s1" "packet_queues s2 = packet_queues s1"
    "pending_responses s2 = pending_responses s1"
    "\<And>feed'. subscribers feed' s2 =
        (if feed' = feed then subscribers feed s1 @ [next_addr s] else subscribers feed' s1)"
    "next_addr s1 = Suc (next_addr s)"
    by (simp_all add: s2_def s1_def)
  have lt: "a < next_addr s" if "a \<in> set (subscribers feed' s1)" for a feed'
    using that assms by (auto simp: s1_def state_inv_def)
  have q: "quiet s2 pu b" if "quiet s1 pu b" "b \<noteq> next_addr s" for b
    using that by (auto simp: quiet_def f)
  have ql: "b \<noteq> next_addr s" if "pending_responses s1 r = Some b \<or> found = Some b" for b r
    using that assms by (auto simp: s1_def state_inv_def quiet_def)
  have "state_inv s2 found pu"
    unfolding state_inv_def f(2,3,4)
  proof (intro conjI allI impI ballI)
    fix r a assume p: "pending_responses s1 r = Some a"
    then have "quiet s1 pu a" using i1 by (simp add: state_inv_def)
    then show "quiet s2 pu a" using ql[of r a] p by (intro q) auto
  next
    fix a assume p: "found = Some a"
    then have "quiet s1 pu a" using i1 by (simp add: state_inv_def)
    then show "quiet s2 pu a" using ql[of _ a] p by (intro q) auto
  next
    fix a r assume "found = Some a"
    then show "pending_responses s1 r \<noteq> Some a" using i1 by (simp add: state_inv_def)
  next
    fix r r' a assume "pending_responses s1 r = Some a \<and> pending_responses s1 r' = Some a"
    then show "r = r'" using i1 unfolding state_inv_def by blast
  next
    fix feed'
    have "distinct (subscribers feed' s1)" using i1 by (simp add: state_inv_def)
    then show "distinct (subscribers feed' s2)" using lt[of "next_addr s" feed] by (auto simp: f(5))
  next
    fix feed' a assume "a \<in> set (subscribers feed' s2)"
    then show "a < next_addr s1" using lt[of a] by (auto simp: f(5,6) less_Suc_eq split: if_splits)
  next
    show "distinct pu" using assms by (simp add: state_inv_def)
  next
    fix a assume "a \<in> set pu"
    then show "a < next_addr s1" using i1 by (simp add: state_inv_def)
  next
    fix ch show "maxsize (packet_queues s1 ch) = MAX_QUEUE_SIZE"
      using i1 by (simp add: state_inv_def)
  next
    fix ch show "length (items (packet_queues s1 ch)) \<le> MAX_QUEUE_SIZE"
      using i1 by (simp add: state_inv_def)
  qed
  then show ?thesis by (simp add: e)
qed

lemma inv_ring_insert:
  assumes "state_inv s found pu"
  shows "state_inv (s\<lparr>packet_queues := (packet_queues s)(ch := ring_insert x (packet_queues s ch))\<rparr>)
           found pu"
proof -
  have pos: "0 < maxsize (packet_queues s ch)"
    and le: "length (items (packet_queues s ch)) \<le> maxsize (packet_queues s ch)"
    and m: "maxsize (packet_queues s ch) = MAX_QUEUE_SIZE"
    using assms by (simp_all add: state_inv_def MAX_QUEUE_SIZE_def)
  have r: "maxsize (ring_insert x (packet_queues s ch)) = MAX_QUEUE_SIZE"
    "length (items (ring_insert x (packet_queues s ch))) \<le> MAX_QUEUE_SIZE"
    using m by (simp_all add: ring_insert_last_n[OF pos le] length_last_n)
  show ?thesis
    using assms r by (simp add: state_inv_def quiet_def)
qed

lemma inv_lookup:
  assumes "state_inv s None pu"
  shows "state_inv (s\<lparr>pending_responses := (pending_responses s)(r := None)\<rparr>)
           (pending_responses s r) pu"
proof -
  have inj: "\<And>r r' a. pending_responses s r = Some a \<Longrightarrow> pending_responses s r' = Some a \<Longrightarrow> r = r'"
    using assms unfolding state_inv_def by blast
  have "state_inv (s\<lparr>pending_responses := (pending_responses s)(r := None)\<rparr>) None pu"
    by (rule inv_unregister[OF assms])
  moreover have "quiet (s\<lparr>pending_responses := (pending_responses s)(r := None)\<rparr>) pu a
      \<and> (\<forall>r'. ((pending_responses s)(r := None)) r' \<noteq> Some a)"
    if "pending_responses s r = Some a" for a
  proof
    have "quiet s pu a" using that assms by (simp add: state_inv_def)
    then show "quiet (s\<lparr>pending_responses := (pending_responses s)(r := None)\<rparr>) pu a"
      by (simp add: quiet_def)
    show "\<forall>r'. ((pending_responses s)(r := None)) r' \<noteq> Some a"
      using inj[OF that] by auto
  qed
  ultimately show ?thesis
    by (simp add: state_inv_def)
qed

lemma inv_forget:
  "state_inv s found pu \<Longrightarrow> state_inv s None pu"
  by (simp add: state_inv_def)

lemma inv_waiter_put:
  assumes "state_inv s waiter pu"
  shows "state_inv (waiter_put resp waiter s) None (pu @ (case waiter of None \<Rightarrow> [] | Some a \<Rightarrow> [a]))"
proof (cases waiter)
  case None
  then show ?thesis using assms by (simp add: waiter_put_def inv_forget)
next
  case (Some a)
  have qa: "quiet s pu a" and na: "\<And>r. pending_responses s r \<noteq> Some a"
    using assms Some by (simp_all add: state_inv_def)
  have nf: "\<not> full (heap s a)" using qa by (simp add: quiet_def full_def new_queue_def)
  define s' where "s' = s\<lparr>heap := (heap s)(a := (heap s a)\<lparr>items := items (heap s a) @ [JObj resp]\<rparr>)\<rparr>"
  have e: "waiter_put resp waiter s = s'"
    using Some nf by (simp add: waiter_put_def put_nowait_def s'_def)
  have f: "next_addr s' = next_addr s" "packet_queues s' = packet_queues s"
    "pending_responses s' = pending_responses s" "\<And>feed. subscribers feed s' = subscribers feed s"
    "\<And>b. b \<noteq> a \<Longrightarrow> heap s' b = heap s b"
    by (simp_all add: s'_def)
  have q: "quiet s' (pu @ [a]) b" if "quiet s pu b" "b \<noteq> a" for b
    using that by (auto simp: quiet_def f)
  have "state_inv s' None (pu @ [a])"
    unfolding state_inv_def f(1,2,3,4)
  proof (intro conjI allI impI ballI)
    fix r b assume p: "pending_responses s r = Some b"
    then have "quiet s pu b" using assms by (simp add: state_inv_def)
    moreover have "b \<noteq> a" using na p by auto
    ultimately show "quiet s' (pu @ [a]) b" by (rule q)
  next
    fix b :: nat assume "None = Some b" then show "quiet s' (pu @ [a]) b" by simp
  next
    fix b :: nat and r assume "None = Some b" then show "pending_responses s r \<noteq> Some b" by simp
  next
    fix r r' b assume "pending_responses s r = Some b \<and> pending_responses s r' = Some b"
    then show "r = r'" using assms unfolding state_inv_def by blast
  next
    fix feed show "distinct (subscribers feed s)" using assms by (simp add: state_inv_def)
  next
    fix feed b assume "b \<in> set (subscribers feed s)"
    then show "b < next_addr s" using assms by (simp add: state_inv_def)
  next
    show "distinct (pu @ [a])" using assms qa by (simp add: state_inv_def quiet_def)
  next
    fix b assume "b \<in> set (pu @ [a])"
    then show "b < next_addr s" using assms qa by (auto simp: state_inv_def quiet_def)
  next
    fix ch show "maxsize (packet_queues s ch) = MAX_QUEUE_SIZE"
      using assms by (simp add: state_inv_def)
  next
    fix ch show "length (items (packet_queues s ch)) \<le> MAX_QUEUE_SIZE"
      using assms by (simp add: state_inv_def)
  qed
  then show ?thesis unfolding e[symmetric] using Some by simp
qed

lemma register_inv:
  assumes "state_inv s found pu" and "api_command_register body rid s = Inr (x, s1)"
  shows "state_inv s1 found pu"
  using register_cases[of body rid s]
proof (elim disjE exE conjE)
  fix d t c
  assume v: "body = JObj d" "get_default d ''target'' (JStr ''uas'') = JStr t"
    "t \<in> set [''uas'', ''uac'', ''*'']"
    "get_default d ''command'' (JStr ''task_list'') = JStr c" "c \<in> set VALID_COMMANDS"
  show ?thesis
    using assms(2) inv_alloc[OF assms(1), of "new_queue 1"] inv_register[OF assms(1), of rid]
    unfolding v(1) register_valid[OF v(2-5)]
    by (auto split: if_splits)
qed (use assms in auto)

lemma publish_cmd_inv:
  assumes "state_inv s found pu" and "api_command_publish pub f s = (r, s1)"
  shows "state_inv s1 found pu"
  using assms inv_unregister[OF assms(1), of "fr_request_id f"]
  by (auto simp: api_command_publish_def split: option.splits if_splits)

lemma await_get_inv:
  assumes "state_inv s found pu" and "await_get f s = (x, s1)"
  shows "state_inv s1 found pu"
proof (cases "items (heap s (fr_queue f))")
  case Nil
  then show ?thesis using assms
    by (simp add: await_get_def get_timeout_def get_nowait_def)
next
  case (Cons y ys)
  then show ?thesis using assms(2) inv_take[OF assms(1) Cons]
    by (auto simp: await_get_def get_timeout_def get_nowait_def)
qed

lemma stream_get_inv:
  assumes "state_inv s found pu"
  shows "state_inv (snd (stream_get a s)) found pu"
proof (cases "items (heap s a)")
  case Nil
  then show ?thesis using assms
    by (simp add: stream_get_def get_timeout_def get_nowait_def)
next
  case (Cons y ys)
  then show ?thesis using inv_take[OF assms Cons]
    by (auto simp: stream_get_def get_timeout_def get_nowait_def)
qed

lemma await_expired_inv:
  assumes "state_inv s found pu" and "await_expired f s = (r, s1)"
  shows "state_inv s1 found pu"
  using assms inv_unregister[OF assms(1), of "fr_request_id f"]
  by (auto simp: await_expired_def)

lemma lookup_inv:
  assumes "state_inv s None pu" and "response_lookup now msg s = Inr (resp, w, s1)"
  shows "state_inv s1 w pu"
proof (cases "get_default (value_dict (msg_value msg)) ''request_id'' (JStr [])")
  case (JStr r)
  then show ?thesis using assms(2) inv_lookup[OF assms(1), of r]
    by (auto simp: response_lookup_def Let_def)
qed (use assms in \<open>auto simp: response_lookup_def Let_def split: if_splits\<close>)

lemma handle_packet_inv:
  assumes "state_inv s found pu" and "handle_packet parse now ch msg s = Inr s1"
  shows "state_inv s1 found pu"
proof -
  from assms(2) obtain p where p: "build_packet parse now msg = Inr p"
    by (auto simp: handle_packet_def split: sum.splits)
  have "state_inv (publish (Some ch) (JObj p) s) found pu" by (rule inv_publish[OF assms(1)])
  from inv_ring_insert[OF this, of ch "JObj p"] show ?thesis
    using assms(2) p by (simp add: handle_packet_def Let_def)
qed

lemma state_inv_found_irrelevant:
  "found_addr c = found_addr c' \<Longrightarrow> state_inv s (found_addr c) pu \<Longrightarrow> state_inv s (found_addr c') pu"
  by simp

lemma exec_inv:
  assumes "system_inv sys" and "exec parse a sys = Some sys'"
  shows "system_inv sys'"
proof (cases a)
  case (Register body rid)
  show ?thesis
  proof (cases "api_command_register body rid (shared sys)")
    case (Inl e)
    then show ?thesis using assms Register by simp
  next
    case (Inr xs)
    obtain x s1 where xs: "xs = (x, s1)" by (cases xs)
    have "state_inv s1 (found_addr (response_consumer sys)) (puts sys)"
      using register_inv[OF _ Inr[unfolded xs]] assms(1) by (simp add: system_inv_def)
    then show ?thesis using assms(2) Register Inr xs
      by (cases x) (auto simp: system_inv_def)
  qed
next
  case (Publish i pub)
  obtain r s1 where r: "api_command_publish pub (fst (requests sys ! i)) (shared sys) = (r, s1)"
    by (cases "api_command_publish pub (fst (requests sys ! i)) (shared sys)")
  have "state_inv s1 (found_addr (response_consumer sys)) (puts sys)"
    using publish_cmd_inv[OF _ r] assms(1) by (simp add: system_inv_def)
  then show ?thesis using assms(2) Publish r
    by (cases r) (auto simp: system_inv_def split: if_splits)
next
  case (Await i)
  obtain x s1 where r: "await_get (fst (requests sys ! i)) (shared sys) = (x, s1)"
    by (cases "await_get (fst (requests sys ! i)) (shared sys)")
  have "state_inv s1 (found_addr (response_consumer sys)) (puts sys)"
    using await_get_inv[OF _ r] assms(1) by (simp add: system_inv_def)
  then show ?thesis using assms(2) Await r
    by (cases x) (auto simp: system_inv_def split: if_splits)
next
  case (Expire i)
  obtain r s1 where r: "await_expired (fst (requests sys ! i)) (shared sys) = (r, s1)"
    by (cases "await_expired (fst (requests sys ! i)) (shared sys)")
  have "state_inv s1 (found_addr (response_consumer sys)) (puts sys)"
    using await_expired_inv[OF _ r] assms(1) by (simp add: system_inv_def)
  then show ?thesis using assms(2) Expire r
    by (auto simp: system_inv_def split: if_splits)
next
  case (Lookup now msg)
  show ?thesis
  proof (cases "response_consumer sys")
    case Idle
    show ?thesis
    proof (cases "response_lookup now msg (shared sys)")
      case (Inl e)
      then show ?thesis using assms Lookup Idle by simp
    next
      case (Inr t)
      obtain resp w s1 where t: "t = (resp, w, s1)" by (cases t)
      have "state_inv (shared sys) None (puts sys)"
        using assms(1) Idle by (simp add: system_inv_def found_addr_def)
      from lookup_inv[OF this Inr[unfolded t]]
      show ?thesis using assms(2) Lookup Idle Inr t
        by (auto simp: system_inv_def found_addr_def)
    qed
  qed (use assms Lookup in simp_all)
next
  case Deliver
  show ?thesis
  proof (cases "response_consumer sys")
    case (Found resp w)
    have "state_inv (shared sys) w (puts sys)"
      using assms(1) Found by (simp add: system_inv_def found_addr_def)
    from inv_waiter_put[OF this, of resp]
    show ?thesis using assms(2) Deliver Found
      by (auto simp: system_inv_def found_addr_def)
  qed (use assms Deliver in simp_all)
next
  case Broadcast
  show ?thesis
  proof (cases "response_consumer sys")
    case (Handed resp)
    have "state_inv (shared sys) None (puts sys)"
      using assms(1) Handed by (simp add: system_inv_def found_addr_def)
    from inv_publish[OF this, of None "JObj resp"]
    show ?thesis using assms(2) Broadcast Handed
      by (auto simp: system_inv_def found_addr_def)
  qed (use assms Broadcast in simp_all)
next
  case (Packet now ch msg)
  show ?thesis
  proof (cases "handle_packet parse now ch msg (shared sys)")
    case (Inl e)
    then show ?thesis using assms Packet by simp
  next
    case (Inr s1)
    have "state_inv s1 (found_addr (response_consumer sys)) (puts sys)"
      using handle_packet_inv[OF _ Inr] assms(1) by (simp add: system_inv_def)
    then show ?thesis using assms(2) Packet Inr by (auto simp: system_inv_def)
  qed
next
  case (Open feed)
  have "state_inv (snd (stream_open feed (shared sys))) (found_addr (response_consumer sys)) (puts sys)"
    using inv_open assms(1) by (simp add: system_inv_def)
  then show ?thesis using assms(2) Open
    by (auto simp: system_inv_def split: prod.splits)
next
  case (Get i)
  have "state_inv (snd (stream_get (snd (streams sys ! i)) (shared sys)))
          (found_addr (response_consumer sys)) (puts sys)"
    using stream_get_inv assms(1) by (simp add: system_inv_def)
  then show ?thesis using assms(2) Get
    by (auto simp: system_inv_def split: if_splits)
next
  case (Close i)
  have "state_inv (stream_close (fst (streams sys ! i)) (snd (streams sys ! i)) (shared sys))
          (found_addr (response_consumer sys)) (puts sys)"
    using inv_close assms(1) by (simp add: system_inv_def)
  then show ?thesis using assms(2) Close
    by (auto simp: system_inv_def split: if_splits)
qed

lemma reachable_inv: "reachable parse sys \<Longrightarrow> system_inv sys"
proof (induction rule: reachable.induct)
  case start
  show ?case by (simp add: system_inv_def init_system_def found_addr_def state_inv_init)
next
  case (step sys a sys')
  then show ?case using exec_inv by blast
qed

lemma run_reachable:
  assumes "reachable parse sys" and "run parse as sys = Some sys'"
  shows "reachable parse sys'"
  using assms
proof (induction as arbitrary: sys)
  case Nil
  then show ?case by simp
next
  case (Cons a as)
  then obtain sys1 where s1: "exec parse a sys = Some sys1" "run parse as sys1 = Some sys'"
    by (auto split: option.splits)
  have "reachable parse sys1" using Cons.prems(1) s1(1) by (rule reachable.step)
  then show ?case using s1(2) by (rule Cons.IH)
qed

lemma quiet_put:
  assumes "quiet s pu a"
  shows "put_nowait x (heap s a) = Inr \<lparr>maxsize = 1, items = [x]\<rparr>"
  using assms by (simp add: quiet_def put_nowait_def full_def new_queue_def)

text \<open>
  Claim C9. In every state the system can reach, with the threads interleaved at every
  access to the shared state: no waiter queue has had \<^verbatim>\<open>put_nowait\<close> called on it
  twice (the log of the puts has no address twice); the waiter that the consumer has
  popped and is about to deliver to is no longer in the pending map, has had no put,
  and is an empty queue of one place, so that \<^verbatim>\<open>put_nowait\<close> on it returns and does
  not raise \<^verbatim>\<open>queue.Full\<close>; every registered waiter is an empty queue of one place
  without a put, registered under one request id only; and whatever response is looked up
  next, a waiter found for it is out of the map and takes the response.
\<close>

theorem waiter_gets_at_most_one_delivery:
  assumes "reachable parse sys"
  shows "distinct (puts sys)
       \<and> (\<forall>resp a. response_consumer sys = Found resp (Some a) \<longrightarrow>
             (\<forall>r. pending_responses (shared sys) r \<noteq> Some a)
           \<and> a \<notin> set (puts sys)
           \<and> maxsize (heap (shared sys) a) = 1 \<and> items (heap (shared sys) a) = []
           \<and> put_nowait (JObj resp) (heap (shared sys) a) = Inr \<lparr>maxsize = 1, items = [JObj resp]\<rparr>)
       \<and> (\<forall>r a. pending_responses (shared sys) r = Some a \<longrightarrow>
             a \<notin> set (puts sys)
           \<and> maxsize (heap (shared sys) a) = 1 \<and> items (heap (shared sys) a) = []
           \<and> (\<forall>r'. pending_responses (shared sys) r' = Some a \<longrightarrow> r' = r))
       \<and> (\<forall>now msg resp a s1.
             response_lookup now msg (shared sys) = Inr (resp, Some a, s1) \<longrightarrow>
               (\<forall>r. pending_responses s1 r \<noteq> Some a)
             \<and> put_nowait (JObj resp) (heap s1 a) = Inr \<lparr>maxsize = 1, items = [JObj resp]\<rparr>)"
proof -
  have inv: "state_inv (shared sys) (found_addr (response_consumer sys)) (puts sys)"
    using reachable_inv[OF assms] by (simp add: system_inv_def)
  have d: "distinct (puts sys)" using inv by (simp add: state_inv_def)
  have f: "(\<forall>r. pending_responses (shared sys) r \<noteq> Some a)
           \<and> a \<notin> set (puts sys)
           \<and> maxsize (heap (shared sys) a) = 1 \<and> items (heap (shared sys) a) = []
           \<and> put_nowait (JObj resp) (heap (shared sys) a) = Inr \<lparr>maxsize = 1, items = [JObj resp]\<rparr>"
    if "response_consumer sys = Found resp (Some a)" for resp a
  proof -
    have q: "quiet (shared sys) (puts sys) a" "\<forall>r. pending_responses (shared sys) r \<noteq> Some a"
      using inv that by (simp_all add: state_inv_def found_addr_def)
    show ?thesis using q quiet_put[OF q(1)] by (simp add: quiet_def new_queue_def)
  qed
  have p: "a \<notin> set (puts sys)
           \<and> maxsize (heap (shared sys) a) = 1 \<and> items (heap (shared sys) a) = []
           \<and> (\<forall>r'. pending_responses (shared sys) r' = Some a \<longrightarrow> r' = r)"
    if "pending_responses (shared sys) r = Some a" for r a
  proof -
    have "quiet (shared sys) (puts sys) a" using inv that unfolding state_inv_def by blast
    moreover have "\<forall>r'. pending_responses (shared sys) r' = Some a \<longrightarrow> r' = r"
      using inv that unfolding state_inv_def by blast
    ultimately show ?thesis by (simp add: quiet_def new_queue_def)
  qed
  have l: "(\<forall>r. pending_responses s1 r \<noteq> Some a)
           \<and> put_nowait (JObj resp) (heap s1 a) = Inr \<lparr>maxsize = 1, items = [JObj resp]\<rparr>"
    if "response_lookup now msg (shared sys) = Inr (resp, Some a, s1)" for now msg resp a s1
  proof -
    have "state_inv (shared sys) None (puts sys)" by (rule inv_forget[OF inv])
    from lookup_inv[OF this that] have "quiet s1 (puts sys) a" "\<forall>r. pending_responses s1 r \<noteq> Some a"
      by (simp_all add: state_inv_def)
    then show ?thesis using quiet_put by simp
  qed
  show ?thesis using d f p l by blast
qed


lemma answered_run_result:
  "run demo_parse answered_run init_system =
     Some \<lparr>shared = init_state\<lparr>heap := (heap init_state)(0 := new_queue 1), next_addr := 1,
                                pending_responses := Map.empty\<rparr>,
           requests = [(\<lparr>fr_target = ''uas'', fr_wait = True, fr_request_id = ''id-9'',
                         fr_queue = 0\<rparr>, Waiting)],
           streams = [],
           response_consumer =
             Found [(''request_id'', JStr ''id-9''), (''error'', JNull), (''_received_at'', JInt 5)]
               (Some 0),
           puts = []\<rparr>"
  by (simp add: answered_run_def init_system_def init_state_def waited_body_def
      api_command_register_def api_command_publish_def get_default_def VALID_COMMANDS_def
      response_lookup_def value_dict_def answer_message_def Let_def)

theorem waiter_gets_at_most_one_delivery_witness:
  "\<exists>sys resp.
      run demo_parse answered_run init_system = Some sys
    \<and> reachable demo_parse sys
    \<and> response_consumer sys = Found resp (Some 0)
    \<and> pending_responses (shared sys) ''id-9'' = None
    \<and> items (heap (shared sys) 0) = []
    \<and> put_nowait (JObj resp) (heap (shared sys) 0) = Inr \<lparr>maxsize = 1, items = [JObj resp]\<rparr>
    \<and> distinct (puts sys)"
proof -
  from answered_run_result obtain sys where
    r: "run demo_parse answered_run init_system = Some sys"
    and c: "response_consumer sys =
         Found [(''request_id'', JStr ''id-9''), (''error'', JNull), (''_received_at'', JInt 5)]
           (Some 0)"
    and p: "pending_responses (shared sys) ''id-9'' = None"
    by simp
  have re: "reachable demo_parse sys"
    by (rule run_reachable[OF reachable.start r])
  from waiter_gets_at_most_one_delivery[OF re] c
  have "items (heap (shared sys) 0) = []"
    "put_nowait (JObj [(''request_id'', JStr ''id-9''), (''error'', JNull), (''_received_at'', JInt 5)])
       (heap (shared sys) 0) =
     Inr \<lparr>maxsize = 1, items = [JObj [(''request_id'', JStr ''id-9''), (''error'', JNull),
                                          (''_received_at'', JInt 5)]]\<rparr>"
    "distinct (puts sys)"
    by blast+
  with r re c p show ?thesis by blast
qed

text \<open>
  The hypotheses on the state that the statements above make hold in every state the
  system can reach: every subscriber queue is registered once, a ring buffer has the
  capacity 500 and at most 500 records, and no waiter queue is a subscriber queue.
\<close>

theorem reachable_wellformed:
  assumes "reachable parse sys"
  shows "(\<forall>feed. distinct (subscribers feed (shared sys)))
       \<and> (\<forall>ch. maxsize (packet_queues (shared sys) ch) = MAX_QUEUE_SIZE
               \<and> length (items (packet_queues (shared sys) ch)) \<le> MAX_QUEUE_SIZE)
       \<and> (\<forall>r a feed. pending_responses (shared sys) r = Some a \<longrightarrow>
               a \<notin> set (subscribers feed (shared sys)))"
proof -
  have inv: "state_inv (shared sys) (found_addr (response_consumer sys)) (puts sys)"
    using reachable_inv[OF assms] by (simp add: system_inv_def)
  have "\<forall>r a feed. pending_responses (shared sys) r = Some a \<longrightarrow>
               a \<notin> set (subscribers feed (shared sys))"
    using inv unfolding state_inv_def quiet_def by blast
  then show ?thesis using inv by (simp add: state_inv_def)
qed

theorem reachable_wellformed_witness:
  "\<exists>sys. run demo_parse [Open None, Open (Some Uas), Register waited_body ''id-9''] init_system
           = Some sys
     \<and> subscribers None (shared sys) = [0]
     \<and> subscribers (Some Uas) (shared sys) = [1]
     \<and> pending_responses (shared sys) ''id-9'' = Some 2
     \<and> distinct (subscribers None (shared sys))
     \<and> 2 \<notin> set (subscribers None (shared sys))"
proof -
  have "\<exists>sys. run demo_parse [Open None, Open (Some Uas), Register waited_body ''id-9''] init_system
           = Some sys
     \<and> subscribers None (shared sys) = [0]
     \<and> subscribers (Some Uas) (shared sys) = [1]
     \<and> pending_responses (shared sys) ''id-9'' = Some 2"
    by (simp add: init_system_def init_state_def waited_body_def stream_open_def
        api_command_register_def get_default_def VALID_COMMANDS_def Let_def
        subscribers_def set_subscribers_def)
  then obtain sys where
    r: "run demo_parse [Open None, Open (Some Uas), Register waited_body ''id-9''] init_system
           = Some sys"
    and s: "subscribers None (shared sys) = [0]" "subscribers (Some Uas) (shared sys) = [1]"
      "pending_responses (shared sys) ''id-9'' = Some 2"
    by blast
  have re: "reachable demo_parse sys"
    by (rule run_reachable[OF reachable.start r])
  from reachable_wellformed[OF re] s(3)
  have "distinct (subscribers None (shared sys))" "2 \<notin> set (subscribers None (shared sys))"
    by blast+
  with r s show ?thesis by blast
qed

end
